theory Spec2Isabelle
  imports Complex_Main "HOL-Library.Word" "HOL-Library.AList" "HOL-Library.List_Lexorder"
    "HOL-Library.Char_ord" "HOL-Library.Sublist" "HOL-Library.Log_Nat"
begin

section \<open>The S3 archival script (main.py)\<close>

text \<open>
  A shallow embedding of \<^verbatim>\<open>src/main.py\<close>. Python strings are \<^typ>\<open>string\<close> (one
  \<^typ>\<open>char\<close> per Latin-1 code point), byte strings are lists of 8-bit words, Python's
  unbounded integers are \<^typ>\<open>int\<close>, its floats are the binary64 numbers with their
  rounding. An exception is a value of \<open>error\<close>; a function
  that may raise returns \<open>error + 'a\<close> with \<open>Inl\<close> for the exception.
\<close>

subsection \<open>Exceptions\<close>

datatype error =
    ZeroDivisionError
  | OverflowError
  | FileNotFoundError
  | NotADirectoryError
  | IsADirectoryError
  | FileExistsError
  | DirectoryNotEmpty
  | DeviceBusy
  | InvalidArgument
  | StructError
  | NoCredentialsError
  | PartialCredentialsError
  | ClientError

subsection \<open>Python floats\<close>

text \<open>
  A Python float is an IEEE 754 binary64 number: a finite value (a rational here), one of
  the two infinities, the negative zero or a NaN; \<open>Finite 0\<close> is the positive zero. A
  finite non-zero double is \<open>m * 2 ^ q\<close> with an integer \<open>m\<close> of at most 53 bits and
  \<open>q \<ge> -1074\<close>, and its magnitude is below \<open>2 ^ 1024\<close>.
\<close>

datatype pyfloat = Finite rat | NegZero | PosInf | NegInf | NaN

text \<open>\<open>ilog2 x\<close> is the binary exponent of a positive \<open>x\<close>: \<open>2 ^ ilog2 x \<le> x < 2 ^ (ilog2 x + 1)\<close>.\<close>

definition ilog2 :: "rat \<Rightarrow> int" where
  "ilog2 x =
     (case quotient_of x of (p, q) \<Rightarrow>
        let d = bitlen p - bitlen q in if 2 powi d \<le> x then d else d - 1)"

definition round_half_even :: "rat \<Rightarrow> int" where
  "round_half_even y =
     (let f = \<lfloor>y\<rfloor>; d = y - of_int f in
      if d < 1 / 2 then f else if 1 / 2 < d then f + 1 else if even f then f else f + 1)"

text \<open>
  Rounding of a magnitude to the nearest double, ties to the even mantissa: the unit in
  the last place is \<open>2 ^ (ilog2 x - 52)\<close>, and \<open>2 ^ -1074\<close> for the subnormal numbers;
  \<open>None\<close> when the rounded magnitude is beyond the largest double.
\<close>

definition round_double :: "rat \<Rightarrow> rat option" where
  "round_double x =
     (if x = 0 then Some 0
      else
        let q = max (ilog2 x - 52) (- 1074);
            r = of_int (round_half_even (x / 2 powi q)) * 2 powi q
        in if of_int (2 ^ 1024) \<le> r then None else Some r)"

definition signed_float :: "bool \<Rightarrow> rat option \<Rightarrow> pyfloat" where
  "signed_float negative r =
     (case r of
        None \<Rightarrow> if negative then NegInf else PosInf
      | Some m \<Rightarrow>
          if m = 0 then (if negative then NegZero else Finite 0)
          else Finite (if negative then - m else m))"

text \<open>
  \<open>a / b\<close> on two Python integers is the correctly rounded quotient. It raises
  \<open>ZeroDivisionError\<close> for \<open>b = 0\<close> and \<open>OverflowError\<close> when the rounded quotient is beyond
  the range of a float; the sign of a zero quotient is that of the operands.
\<close>

definition int_true_divide :: "int \<Rightarrow> int \<Rightarrow> error + pyfloat" where
  "int_true_divide a b =
     (if b = 0 then Inl ZeroDivisionError
      else
        case round_double (\<bar>of_int a\<bar> / \<bar>of_int b\<bar>) of
          None \<Rightarrow> Inl OverflowError
        | Some m \<Rightarrow> Inr (signed_float ((a < 0) \<noteq> (b < 0)) (Some m)))"

fun sign_bit :: "pyfloat \<Rightarrow> bool" where
  "sign_bit (Finite r) = (r < 0)"
| "sign_bit NegZero = True"
| "sign_bit NegInf = True"
| "sign_bit PosInf = False"
| "sign_bit NaN = False"

fun magnitude :: "pyfloat \<Rightarrow> rat option" where
  "magnitude (Finite r) = Some \<bar>r\<bar>"
| "magnitude NegZero = Some 0"
| "magnitude PosInf = None"
| "magnitude NegInf = None"
| "magnitude NaN = None"

text \<open>
  \<open>x * y\<close> on floats is the IEEE product, rounded as above; it does not raise, a product
  beyond the range is an infinity.
\<close>

definition float_mul :: "pyfloat \<Rightarrow> pyfloat \<Rightarrow> pyfloat" where
  "float_mul x y =
     (if x = NaN \<or> y = NaN then NaN
      else
        case (magnitude x, magnitude y) of
          (Some a, Some b) \<Rightarrow> signed_float (sign_bit x \<noteq> sign_bit y) (round_double (a * b))
        | (Some a, None) \<Rightarrow> if a = 0 then NaN else signed_float (sign_bit x \<noteq> sign_bit y) None
        | (None, Some b) \<Rightarrow> if b = 0 then NaN else signed_float (sign_bit x \<noteq> sign_bit y) None
        | (None, None) \<Rightarrow> signed_float (sign_bit x \<noteq> sign_bit y) None)"

subsection \<open>Savings Reporter: \<^verbatim>\<open>calculate_size_savings\<close>\<close>

text \<open>
  \<^verbatim>\<open>
  def calculate_size_savings(original_size, compressed_size):
      savings = original_size - compressed_size
      savings_percent = (savings / original_size) * 100
      return savings, savings_percent
  \<close>
  The quotient of the two integers is a float; the integer \<open>100\<close> is converted to the
  float \<open>100.0\<close>, which is exact, before the product is taken.
\<close>

definition calculate_size_savings :: "int \<Rightarrow> int \<Rightarrow> error + (int \<times> pyfloat)" where
  "calculate_size_savings original_size compressed_size =
     (let savings = original_size - compressed_size in
      case int_true_divide savings original_size of
        Inl e \<Rightarrow> Inl e
      | Inr ratio \<Rightarrow>
          let savings_percent = float_mul ratio (Finite 100) in
          Inr (savings, savings_percent))"

subsection \<open>Strings and \<^verbatim>\<open>os.path\<close>\<close>

type_synonym byte = "8 word"
type_synonym bytes = "byte list"

text \<open>\<^verbatim>\<open>s.split('/')\<close>: the pieces between the separators, empty pieces included.\<close>

fun split_slash :: "string \<Rightarrow> string list" where
  "split_slash [] = [[]]"
| "split_slash (c # cs) =
     (if c = CHR ''/'' then [] # split_slash cs
      else (case split_slash cs of [] \<Rightarrow> [[c]] | w # ws \<Rightarrow> (c # w) # ws))"

definition startswith :: "string \<Rightarrow> string \<Rightarrow> bool" where
  "startswith s pre = (take (length pre) s = pre)"

definition endswith :: "string \<Rightarrow> string \<Rightarrow> bool" where
  "endswith s suf = (length suf \<le> length s \<and> drop (length s - length suf) s = suf)"

definition rstrip_slash :: "string \<Rightarrow> string" where
  "rstrip_slash s = rev (dropWhile (\<lambda>c. c = CHR ''/'') (rev s))"

definition lstrip_slash :: "string \<Rightarrow> string" where
  "lstrip_slash s = dropWhile (\<lambda>c. c = CHR ''/'') s"

text \<open>
  \<^verbatim>\<open>posixpath.join(a, b)\<close> for two arguments: an absolute \<open>b\<close> replaces \<open>a\<close>; otherwise
  \<open>b\<close> is appended, after a separator unless \<open>a\<close> is empty or ends with one.
\<close>

definition os_path_join :: "string \<Rightarrow> string \<Rightarrow> string" where
  "os_path_join a b =
     (if startswith b ''/'' then b
      else if a = [] \<or> endswith a ''/'' then a @ b
      else a @ CHR ''/'' # b)"

text \<open>
  \<^verbatim>\<open>posixpath.basename\<close> is what follows the last separator; \<^verbatim>\<open>posixpath.dirname\<close> is
  what precedes it, with trailing separators stripped unless it consists of separators only.
\<close>

definition os_path_basename :: "string \<Rightarrow> string" where
  "os_path_basename p = rev (takeWhile (\<lambda>c. c \<noteq> CHR ''/'') (rev p))"

definition os_path_dirname :: "string \<Rightarrow> string" where
  "os_path_dirname p =
     (let head = rev (dropWhile (\<lambda>c. c \<noteq> CHR ''/'') (rev p)) in
      if head \<noteq> [] \<and> list_ex (\<lambda>c. c \<noteq> CHR ''/'') head then rstrip_slash head else head)"

text \<open>
  \<^verbatim>\<open>posixpath.normpath\<close> and \<^verbatim>\<open>posixpath.abspath\<close>. The process's working directory is
  taken to be \<^verbatim>\<open>/\<close> throughout (the script only builds absolute paths).
\<close>

definition norm_step :: "bool \<Rightarrow> string list \<Rightarrow> string \<Rightarrow> string list" where
  "norm_step rooted new_comps c =
     (if c = [] \<or> c = ''.'' then new_comps
      else if c \<noteq> ''..'' \<or> (\<not> rooted \<and> new_comps = [])
              \<or> (new_comps \<noteq> [] \<and> last new_comps = ''..'')
      then new_comps @ [c]
      else butlast new_comps)"

fun join_slash :: "string list \<Rightarrow> string" where
  "join_slash [] = []"
| "join_slash [c] = c"
| "join_slash (c # d # cs) = c @ CHR ''/'' # join_slash (d # cs)"

definition normpath :: "string \<Rightarrow> string" where
  "normpath path =
     (if path = [] then ''.''
      else
        let initial_slashes =
              (if startswith path ''/'' then
                 (if startswith path ''//'' \<and> \<not> startswith path ''///'' then 2 else 1)
               else (0::nat));
            comps = foldl (norm_step (0 < initial_slashes)) [] (split_slash path);
            p = replicate initial_slashes CHR ''/'' @ join_slash comps
        in if p = [] then ''.'' else p)"

definition os_path_abspath :: "string \<Rightarrow> string" where
  "os_path_abspath path = normpath (if startswith path ''/'' then path else os_path_join ''/'' path)"

subsection \<open>The local file system\<close>

text \<open>
  A file system is a tree: a regular file with its bytes, or a directory with its entries
  in listing order. There are no symbolic links, no permissions and no quota, so a
  system call fails only for a missing path or an entry of the wrong kind. A path is
  resolved from the root, one name at a time, as the kernel does: every name is looked
  up in a directory that exists, \<^verbatim>\<open>.\<close> stays, \<^verbatim>\<open>..\<close> goes to the parent, and a trailing
  separator stands for a final \<^verbatim>\<open>.\<close>.
\<close>

datatype node = File bytes | Dir "(string \<times> node) list"

fun lookup :: "node \<Rightarrow> string list \<Rightarrow> node option" where
  "lookup n [] = Some n"
| "lookup (File b) (c # p) = None"
| "lookup (Dir es) (c # p) = (case map_of es c of None \<Rightarrow> None | Some m \<Rightarrow> lookup m p)"

text \<open>
  \<open>alter p f\<close> replaces the entry at \<open>p\<close> by what \<open>f\<close> makes of it (\<open>None\<close>: no entry);
  the directory that holds the entry must exist. The root itself is never replaced.
\<close>

fun alter :: "string list \<Rightarrow> (node option \<Rightarrow> error + node option) \<Rightarrow> node \<Rightarrow> error + node" where
  "alter [] f n = (case f (Some n) of Inl e \<Rightarrow> Inl e | Inr r \<Rightarrow> Inl DeviceBusy)"
| "alter (c # p) f (File b) = Inl NotADirectoryError"
| "alter [c] f (Dir es) =
     (case f (map_of es c) of
        Inl e \<Rightarrow> Inl e
      | Inr None \<Rightarrow> Inr (Dir (AList.delete c es))
      | Inr (Some m) \<Rightarrow> Inr (Dir (AList.update c m es)))"
| "alter (c # d # p) f (Dir es) =
     (case map_of es c of
        None \<Rightarrow> Inl FileNotFoundError
      | Some m \<Rightarrow> (case alter (d # p) f m of
                     Inl e \<Rightarrow> Inl e
                   | Inr m' \<Rightarrow> Inr (Dir (AList.update c m' es))))"

definition path_names :: "string \<Rightarrow> string list" where
  "path_names s = filter (\<lambda>c. c \<noteq> []) (split_slash s)"

definition path_components :: "string \<Rightarrow> string list" where
  "path_components s = path_names s @ (if endswith s ''/'' then [''.''] else [])"

fun walk_path :: "node \<Rightarrow> string list \<Rightarrow> string list \<Rightarrow> error + string list" where
  "walk_path root_dir cur [] = Inr cur"
| "walk_path root_dir cur (c # cs) =
     (case lookup root_dir cur of
        None \<Rightarrow> Inl FileNotFoundError
      | Some (File b) \<Rightarrow> Inl NotADirectoryError
      | Some (Dir es) \<Rightarrow>
          if c = ''.'' then walk_path root_dir cur cs
          else if c = ''..'' then walk_path root_dir (butlast cur) cs
          else walk_path root_dir (cur @ [c]) cs)"

definition resolve :: "node \<Rightarrow> string \<Rightarrow> error + string list" where
  "resolve root_dir s =
     (if s = [] then Inl FileNotFoundError else walk_path root_dir [] (path_components s))"

definition stat_node :: "node \<Rightarrow> string \<Rightarrow> error + node" where
  "stat_node root_dir s =
     (case resolve root_dir s of
        Inl e \<Rightarrow> Inl e
      | Inr p \<Rightarrow> (case lookup root_dir p of None \<Rightarrow> Inl FileNotFoundError | Some n \<Rightarrow> Inr n))"

definition os_path_isdir :: "node \<Rightarrow> string \<Rightarrow> bool" where
  "os_path_isdir root_dir s = (case stat_node root_dir s of Inr (Dir es) \<Rightarrow> True | _ \<Rightarrow> False)"

definition os_path_isfile :: "node \<Rightarrow> string \<Rightarrow> bool" where
  "os_path_isfile root_dir s = (case stat_node root_dir s of Inr (File b) \<Rightarrow> True | _ \<Rightarrow> False)"


text \<open>What \<^verbatim>\<open>unlink\<close>, \<^verbatim>\<open>rmdir\<close>, \<^verbatim>\<open>mkdir\<close> and a write to a file do to a directory entry.\<close>

fun unlink_entry :: "node option \<Rightarrow> error + node option" where
  "unlink_entry None = Inl FileNotFoundError"
| "unlink_entry (Some (File b)) = Inr None"
| "unlink_entry (Some (Dir es)) = Inl IsADirectoryError"

fun rmdir_entry :: "node option \<Rightarrow> error + node option" where
  "rmdir_entry None = Inl FileNotFoundError"
| "rmdir_entry (Some (File b)) = Inl NotADirectoryError"
| "rmdir_entry (Some (Dir [])) = Inr None"
| "rmdir_entry (Some (Dir (e # es))) = Inl DirectoryNotEmpty"

fun mkdir_entry :: "node option \<Rightarrow> error + node option" where
  "mkdir_entry None = Inr (Some (Dir []))"
| "mkdir_entry (Some n) = Inl FileExistsError"

fun write_entry :: "bytes \<Rightarrow> node option \<Rightarrow> error + node option" where
  "write_entry data None = Inr (Some (File data))"
| "write_entry data (Some (File b)) = Inr (Some (File data))"
| "write_entry data (Some (Dir es)) = Inl IsADirectoryError"

definition os_remove :: "string \<Rightarrow> node \<Rightarrow> error + node" where
  "os_remove s root_dir =
     (case resolve root_dir s of Inl e \<Rightarrow> Inl e | Inr p \<Rightarrow> alter p unlink_entry root_dir)"

text \<open>\<^verbatim>\<open>rmdir\<close> refuses a path whose last name is \<^verbatim>\<open>.\<close> (the code never passes one).\<close>

definition os_rmdir :: "string \<Rightarrow> node \<Rightarrow> error + node" where
  "os_rmdir s root_dir =
     (if path_names s \<noteq> [] \<and> last (path_names s) = ''.'' then Inl InvalidArgument
      else case resolve root_dir s of Inl e \<Rightarrow> Inl e | Inr p \<Rightarrow> alter p rmdir_entry root_dir)"

text \<open>
  Writing a whole file (\<^verbatim>\<open>open(path, 'wb')\<close>, the writes, \<^verbatim>\<open>close\<close>): the file is created
  or replaced; its directory must exist.
\<close>

definition write_file :: "string \<Rightarrow> bytes \<Rightarrow> node \<Rightarrow> error + node" where
  "write_file s data root_dir =
     (case resolve root_dir s of Inl e \<Rightarrow> Inl e | Inr p \<Rightarrow> alter p (write_entry data) root_dir)"

definition read_file :: "string \<Rightarrow> node \<Rightarrow> error + bytes" where
  "read_file s root_dir =
     (case stat_node root_dir s of
        Inl e \<Rightarrow> Inl e
      | Inr (Dir es) \<Rightarrow> Inl IsADirectoryError
      | Inr (File b) \<Rightarrow> Inr b)"

text \<open>
  \<^verbatim>\<open>os.makedirs(name, exist_ok=True)\<close> goes through the names of the path from left to
  right and creates every directory that is missing; it raises when a name on the way is
  a regular file. The result holds the directories made before the error, if any.
\<close>

fun makedirs_walk :: "node \<Rightarrow> string list \<Rightarrow> string list \<Rightarrow> error option \<times> node" where
  "makedirs_walk root_dir cur [] = (None, root_dir)"
| "makedirs_walk root_dir cur (c # cs) =
     (case lookup root_dir cur of
        None \<Rightarrow> (Some FileNotFoundError, root_dir)
      | Some (File b) \<Rightarrow> (Some NotADirectoryError, root_dir)
      | Some (Dir es) \<Rightarrow>
          if c = ''.'' then makedirs_walk root_dir cur cs
          else if c = ''..'' then makedirs_walk root_dir (butlast cur) cs
          else (case lookup root_dir (cur @ [c]) of
                  Some (Dir es') \<Rightarrow> makedirs_walk root_dir (cur @ [c]) cs
                | Some (File b) \<Rightarrow>
                    (Some (if cs = [] then FileExistsError else NotADirectoryError), root_dir)
                | None \<Rightarrow>
                    (case alter (cur @ [c]) mkdir_entry root_dir of
                       Inl e \<Rightarrow> (Some e, root_dir)
                     | Inr root_dir' \<Rightarrow> makedirs_walk root_dir' (cur @ [c]) cs)))"

definition os_makedirs :: "string \<Rightarrow> node \<Rightarrow> error option \<times> node" where
  "os_makedirs s root_dir =
     (if s = [] then (Some FileNotFoundError, root_dir)
      else makedirs_walk root_dir [] (path_names s))"


subsection \<open>Statements that may raise\<close>

text \<open>
  A statement runs on a state and leaves a state, also when it raises: \<open>(Some e, s)\<close> is
  the exception \<open>e\<close> raised in state \<open>s\<close>. A system call either fails and changes
  nothing or succeeds (\<open>atomic\<close>); \<open>and_then\<close> is sequencing, \<open>for_each\<close> a \<^verbatim>\<open>for\<close> loop.
\<close>

definition atomic :: "('s \<Rightarrow> error + 's) \<Rightarrow> 's \<Rightarrow> error option \<times> 's" where
  "atomic f s = (case f s of Inl e \<Rightarrow> (Some e, s) | Inr s' \<Rightarrow> (None, s'))"

definition and_then ::
  "('s \<Rightarrow> error option \<times> 's) \<Rightarrow> ('s \<Rightarrow> error option \<times> 's) \<Rightarrow> 's \<Rightarrow> error option \<times> 's" where
  "and_then m1 m2 s = (case m1 s of (Some e, s') \<Rightarrow> (Some e, s') | (None, s') \<Rightarrow> m2 s')"

fun for_each :: "('a \<Rightarrow> 's \<Rightarrow> error option \<times> 's) \<Rightarrow> 'a list \<Rightarrow> 's \<Rightarrow> error option \<times> 's" where
  "for_each f [] s = (None, s)"
| "for_each f (x # xs) s =
     (case f x s of (Some e, s') \<Rightarrow> (Some e, s') | (None, s') \<Rightarrow> for_each f xs s')"

subsection \<open>Run Finalizer: \<^verbatim>\<open>cleanup_local_resources\<close>\<close>

text \<open>
  \<^verbatim>\<open>os.walk(path, topdown=False)\<close> yields, for every directory of the tree, its path with
  the names of its subdirectories and of its other entries, the triples of the
  subdirectories first. It is a generator, and each directory is listed before the loop
  body removes anything in it, so the triples are those of the tree found at \<open>path\<close>
  when the walk starts (nothing at all when \<open>path\<close> cannot be listed).
\<close>

fun os_walk :: "string \<Rightarrow> node \<Rightarrow> (string \<times> string list \<times> string list) list" where
  "os_walk top_dir (File b) = []"
| "os_walk top_dir (Dir es) =
     concat (map (\<lambda>(name, child). os_walk (os_path_join top_dir name) child) es)
     @ [(top_dir, [name. (name, Dir es') \<leftarrow> es], [name. (name, File b) \<leftarrow> es])]"

definition os_walk_at :: "node \<Rightarrow> string \<Rightarrow> (string \<times> string list \<times> string list) list" where
  "os_walk_at root_dir path =
     (case stat_node root_dir path of Inl e \<Rightarrow> [] | Inr n \<Rightarrow> os_walk path n)"

text \<open>
  \<^verbatim>\<open>
  for root, dirs, files in os.walk(path, topdown=False):
      for name in files:
          os.remove(os.path.join(root, name))
      for name in dirs:
          os.rmdir(os.path.join(root, name))
  os.rmdir(path)
  \<close>
\<close>

definition walk_body :: "string \<times> string list \<times> string list \<Rightarrow> node \<Rightarrow> error option \<times> node" where
  "walk_body triple =
     (case triple of (walk_root, dirs, files) \<Rightarrow>
        and_then
          (for_each (\<lambda>name. atomic (os_remove (os_path_join walk_root name))) files)
          (for_each (\<lambda>name. atomic (os_rmdir (os_path_join walk_root name))) dirs))"

definition cleanup_path :: "string \<Rightarrow> node \<Rightarrow> error option \<times> node" where
  "cleanup_path path root_dir =
     (if os_path_isdir root_dir path then
        and_then (for_each walk_body (os_walk_at root_dir path)) (atomic (os_rmdir path)) root_dir
      else if os_path_isfile root_dir path then atomic (os_remove path) root_dir
      else (None, root_dir))"

definition temp_paths :: "string list" where
  "temp_paths = [''/tmp/s3_files/'', ''/tmp/weekly-archive.tar.gz'', ''/tmp/s3_compression_log.txt'']"

subsection \<open>The world of a run\<close>

text \<open>
  The state of a run: the local file system, the objects of the bucket in listing order,
  and the console. The module configures \<^verbatim>\<open>logging\<close> with two handlers; \<open>console\<close> is what
  the \<^verbatim>\<open>StreamHandler\<close> has written to the standard error stream, one line per call, oldest
  first, and nothing in the program can take a line back from it. The \<^verbatim>\<open>FileHandler\<close>
  appends the same lines to the log file, which it keeps open from the start of the
  process, so a call neither creates nor removes a path. What the log file holds is not
  modelled: in \<open>fs\<close> the file keeps the bytes it had when the process started, and once
  \<^verbatim>\<open>cleanup_local_resources\<close> has removed the file, the lines logged so far are on the
  console only.
\<close>

record s3_object =
  obj_body :: bytes
  obj_content_type :: "string option"
  obj_tag_set :: "(string \<times> string) list"

datatype log_line = INFO string | ERROR string

record world =
  fs :: node
  bucket :: "(string \<times> s3_object) list"
  console :: "log_line list"

definition logging :: "log_line \<Rightarrow> world \<Rightarrow> world" where
  "logging l w = w\<lparr>console := console w @ [l]\<rparr>"

text \<open>\<open>str(e)\<close>: the message of an exception is not modelled beyond its class.\<close>

fun str_error :: "error \<Rightarrow> string" where
  "str_error ZeroDivisionError = ''division by zero''"
| "str_error OverflowError = ''integer division result too large for a float''"
| "str_error FileNotFoundError = ''FileNotFoundError''"
| "str_error NotADirectoryError = ''NotADirectoryError''"
| "str_error IsADirectoryError = ''IsADirectoryError''"
| "str_error FileExistsError = ''FileExistsError''"
| "str_error DirectoryNotEmpty = ''Directory not empty''"
| "str_error DeviceBusy = ''Device or resource busy''"
| "str_error InvalidArgument = ''Invalid argument''"
| "str_error StructError = ''struct.error''"
| "str_error NoCredentialsError = ''Unable to locate credentials''"
| "str_error PartialCredentialsError = ''Partial credentials found''"
| "str_error ClientError = ''ClientError''"

definition cleanup_local_resources :: "world \<Rightarrow> (error + unit) \<times> world" where
  "cleanup_local_resources w =
     (case for_each cleanup_path temp_paths (fs w) of
        (Some e, root_dir) \<Rightarrow> (Inl e, w\<lparr>fs := root_dir\<rparr>)
      | (None, root_dir) \<Rightarrow>
          (Inr (), logging (INFO ''Cleaned up all local temporary resources.'') (w\<lparr>fs := root_dir\<rparr>)))"

subsection \<open>What the run does not decide\<close>

text \<open>
  The collaborators of the script are parameters of the model: whether the AWS session
  can be made and whether a call to the object store fails, the two readings of the
  clock (the local time that \<^verbatim>\<open>time.strftime\<close> formats when \<^verbatim>\<open>main\<close> starts, and the
  seconds since the epoch that \<^verbatim>\<open>gzip\<close> writes into its header, taken to fit 32 bits),
  the metadata \<^verbatim>\<open>os.lstat\<close> reports for a path, and the byte formats of \<^verbatim>\<open>tarfile\<close> and
  \<^verbatim>\<open>zlib\<close> (the layout of a tar stream, the deflate stream and the CRC-32 of a byte
  string).
\<close>

datatype s3_call = ListObjects | GetObject string | PutObject string | PutObjectTagging string

record struct_time =
  tm_year :: nat
  tm_mon :: nat
  tm_mday :: nat
  tm_hour :: nat
  tm_min :: nat
  tm_sec :: nat

record file_attrs =
  st_mode :: nat
  st_uid :: nat
  st_gid :: nat
  st_mtime :: nat

record tar_member =
  tm_name :: string
  tm_isdir :: bool
  tm_attrs :: file_attrs
  tm_data :: bytes

record env =
  session_error :: "error option"
  s3_error :: "s3_call \<Rightarrow> error option"
  localtime :: struct_time
  time_time :: "32 word"
  lstat_attrs :: "string \<Rightarrow> file_attrs"
  tar_encode :: "tar_member list \<Rightarrow> bytes"
  deflate :: "bytes \<Rightarrow> bytes"
  crc32 :: "bytes \<Rightarrow> 32 word"

subsection \<open>\<^verbatim>\<open>configure_aws\<close>\<close>

text \<open>
  \<^verbatim>\<open>
  try:
      session = boto3.Session(profile_name='default')
      s3 = session.resource('s3')
      logging.info("AWS SDK configured successfully.")
      return s3
  except (NoCredentialsError, PartialCredentialsError) as e:
      logging.error(f"Credentials issue: {str(e)}")
      raise
  except Exception as e:
      logging.error(f"An unexpected error occurred: {str(e)}")
      raise
  \<close>
\<close>

definition configure_aws :: "env \<Rightarrow> world \<Rightarrow> (error + unit) \<times> world" where
  "configure_aws E w =
     (case session_error E of
        None \<Rightarrow> (Inr (), logging (INFO ''AWS SDK configured successfully.'') w)
      | Some e \<Rightarrow>
          if e = NoCredentialsError \<or> e = PartialCredentialsError
          then (Inl e, logging (ERROR (''Credentials issue: '' @ str_error e)) w)
          else (Inl e, logging (ERROR (''An unexpected error occurred: '' @ str_error e)) w))"

subsection \<open>Selective Mirror: \<^verbatim>\<open>download_files\<close>\<close>

text \<open>
  \<^verbatim>\<open>bucket.download_file(key, filename)\<close> fetches the object and writes it to the local
  path, replacing a file that is there.
\<close>

definition download_file :: "env \<Rightarrow> string \<Rightarrow> bytes \<Rightarrow> string \<Rightarrow> node \<Rightarrow> error + node" where
  "download_file E key data filename root_dir =
     (case s3_error E (GetObject key) of
        Some e \<Rightarrow> Inl e
      | None \<Rightarrow> write_file filename data root_dir)"

text \<open>
  \<^verbatim>\<open>
  for obj in bucket.objects.all():
      if any(obj.key.endswith(pattern) for pattern in ignore_patterns):
          logging.info(f"Skipping {obj.key} due to ignore pattern.")
          continue  # Skip ignored files
      local_file_path = os.path.join(local_dir, obj.key)
      os.makedirs(os.path.dirname(local_file_path), exist_ok=True)
      bucket.download_file(obj.key, local_file_path)
      logging.info(f"Downloaded {obj.key} to {local_file_path}")
  \<close>
\<close>

definition ignored :: "string list \<Rightarrow> string \<Rightarrow> bool" where
  "ignored ignore_patterns key = list_ex (\<lambda>pattern. endswith key pattern) ignore_patterns"

definition download_one ::
  "env \<Rightarrow> string \<Rightarrow> string list \<Rightarrow> string \<times> s3_object \<Rightarrow> world \<Rightarrow> error option \<times> world" where
  "download_one E local_dir ignore_patterns obj w =
     (case obj of (key, content) \<Rightarrow>
        if ignored ignore_patterns key
        then (None, logging (INFO (''Skipping '' @ key @ '' due to ignore pattern.'')) w)
        else
          let local_file_path = os_path_join local_dir key in
          case os_makedirs (os_path_dirname local_file_path) (fs w) of
            (Some e, root_dir) \<Rightarrow> (Some e, w\<lparr>fs := root_dir\<rparr>)
          | (None, root_dir) \<Rightarrow>
              (case download_file E key (obj_body content) local_file_path root_dir of
                 Inl e \<Rightarrow> (Some e, w\<lparr>fs := root_dir\<rparr>)
               | Inr root_dir' \<Rightarrow>
                   (None, logging (INFO (''Downloaded '' @ key @ '' to '' @ local_file_path))
                            (w\<lparr>fs := root_dir'\<rparr>))))"

definition download_files :: "env \<Rightarrow> string list \<Rightarrow> world \<Rightarrow> (error + string) \<times> world" where
  "download_files E ignore_patterns w =
     (let local_dir = ''/tmp/s3_files/'' in
      case os_makedirs local_dir (fs w) of
        (Some e, root_dir) \<Rightarrow> (Inl e, w\<lparr>fs := root_dir\<rparr>)
      | (None, root_dir) \<Rightarrow>
          (case s3_error E ListObjects of
             Some e \<Rightarrow> (Inl e, w\<lparr>fs := root_dir\<rparr>)
           | None \<Rightarrow>
               (case for_each (download_one E local_dir ignore_patterns) (bucket w)
                       (w\<lparr>fs := root_dir\<rparr>) of
                  (Some e, w') \<Rightarrow> (Inl e, w')
                | (None, w') \<Rightarrow> (Inr local_dir, w'))))"

subsection \<open>Archive Builder: \<^verbatim>\<open>create_tar_gz_archive\<close>\<close>

text \<open>
  \<^verbatim>\<open>tar.add(name, arcname)\<close> skips the archive's own file, records the member under
  \<open>arcname\<close> without leading separators, and for a directory adds its entries in sorted
  order under \<^verbatim>\<open>os.path.join(name, f)\<close> and \<^verbatim>\<open>os.path.join(arcname, f)\<close>.
\<close>

function tar_add_node ::
  "string \<Rightarrow> (string \<Rightarrow> file_attrs) \<Rightarrow> string \<Rightarrow> string \<Rightarrow> node \<Rightarrow> tar_member list" where
  "tar_add_node self_name attrs name arcname (File b) =
     (if os_path_abspath name = self_name then []
      else [\<lparr>tm_name = lstrip_slash arcname, tm_isdir = False, tm_attrs = attrs name, tm_data = b\<rparr>])"
| "tar_add_node self_name attrs name arcname (Dir es) =
     (if os_path_abspath name = self_name then []
      else \<lparr>tm_name = lstrip_slash arcname, tm_isdir = True, tm_attrs = attrs name, tm_data = []\<rparr>
           # concat (map (\<lambda>e. tar_add_node self_name attrs (os_path_join name (fst e))
                                   (os_path_join arcname (fst e)) (snd e))
                         (sort_key fst es)))"
  by pat_completeness auto
termination
proof (relation "measure (\<lambda>(self_name, attrs, name, arcname, n). size n)")
  show "wf (measure (\<lambda>(self_name, attrs, name, arcname, n). size n))" by simp
next
  fix self_name :: string and attrs :: "string \<Rightarrow> file_attrs" and name arcname :: string
    and es :: "(string \<times> node) list" and e
  assume "e \<in> set (sort_key fst es)"
  then have "e \<in> set es" by simp
  moreover have "size (snd e) \<le> size_prod (\<lambda>x. 0) size e"
    by (cases e) simp
  ultimately have "size (snd e) \<le> size_list (size_prod (\<lambda>x. 0) size) es"
    by (rule size_list_estimation')
  then show "((self_name, attrs, os_path_join name (fst e), os_path_join arcname (fst e), snd e),
              (self_name, attrs, name, arcname, Dir es))
             \<in> measure (\<lambda>(self_name, attrs, name, arcname, n). size n)"
    by simp
qed

definition tar_add :: "env \<Rightarrow> string \<Rightarrow> string \<Rightarrow> string \<Rightarrow> node \<Rightarrow> error + tar_member list" where
  "tar_add E self_name name arcname root_dir =
     (if os_path_abspath name = self_name then Inr []
      else case stat_node root_dir name of
             Inl e \<Rightarrow> Inl e
           | Inr n \<Rightarrow> Inr (tar_add_node self_name (lstat_attrs E) name arcname n))"

text \<open>
  The gzip member that \<^verbatim>\<open>gzip.open(gz_path, 'wb')\<close> writes: the magic bytes, the method,
  the flags, the time of writing, the extra flags of level 9 and the OS byte, the file
  name without \<^verbatim>\<open>.gz\<close>, the deflate stream, the CRC-32 and the length of the input.
\<close>

definition write32u :: "32 word \<Rightarrow> bytes" where
  "write32u x = [ucast x, ucast (drop_bit 8 x), ucast (drop_bit 16 x), ucast (drop_bit 24 x)]"

definition encode_latin1 :: "string \<Rightarrow> bytes" where
  "encode_latin1 s = map (\<lambda>c. of_nat (of_char c)) s"

definition gzip_header :: "env \<Rightarrow> string \<Rightarrow> bytes" where
  "gzip_header E filename =
     (let base = os_path_basename filename;
          fname = (if endswith base ''.gz'' then take (length base - 3) base else base);
          flags = (if fname = [] then 0 else 8)
      in [0x1f, 0x8b] @ [8] @ [flags] @ write32u (time_time E) @ [2] @ [255]
         @ (if fname = [] then [] else encode_latin1 fname @ [0]))"

definition gzip_stream :: "env \<Rightarrow> string \<Rightarrow> bytes \<Rightarrow> bytes" where
  "gzip_stream E filename data =
     gzip_header E filename @ deflate E data @ write32u (crc32 E data)
       @ write32u (of_nat (length data))"

text \<open>
  \<^verbatim>\<open>
  tar_path = f"{output_filename}.tar"
  gz_path = f"{output_filename}.tar.gz"
  with tarfile.open(tar_path, 'w') as tar:
      tar.add(source_dir, arcname=os.path.basename(source_dir))
  with open(tar_path, 'rb') as tar_file:
      with gzip.open(gz_path, 'wb') as gz_file:
          gz_file.writelines(tar_file)
  os.remove(tar_path)
  logging.info(f"Created archive {gz_path}")
  return gz_path
  \<close>
  \<^verbatim>\<open>tarfile.open(tar_path, 'w')\<close> creates the (empty) file at once; the members are written
  as they are added and the stream is completed when the \<^verbatim>\<open>with\<close> block is left normally.
\<close>

definition create_tar_gz_archive ::
  "env \<Rightarrow> string \<Rightarrow> string \<Rightarrow> world \<Rightarrow> (error + string) \<times> world" where
  "create_tar_gz_archive E source_dir output_filename w =
     (let tar_path = output_filename @ ''.tar'';
          gz_path = output_filename @ ''.tar.gz''
      in
      case write_file tar_path [] (fs w) of
        Inl e \<Rightarrow> (Inl e, w)
      | Inr fs1 \<Rightarrow>
      case tar_add E (os_path_abspath tar_path) source_dir (os_path_basename source_dir) fs1 of
        Inl e \<Rightarrow> (Inl e, w\<lparr>fs := fs1\<rparr>)
      | Inr members \<Rightarrow>
      case write_file tar_path (tar_encode E members) fs1 of
        Inl e \<Rightarrow> (Inl e, w\<lparr>fs := fs1\<rparr>)
      | Inr fs2 \<Rightarrow>
      case read_file tar_path fs2 of
        Inl e \<Rightarrow> (Inl e, w\<lparr>fs := fs2\<rparr>)
      | Inr tar_bytes \<Rightarrow>
      case write_file gz_path (gzip_stream E gz_path tar_bytes) fs2 of
        Inl e \<Rightarrow> (Inl e, w\<lparr>fs := fs2\<rparr>)
      | Inr fs3 \<Rightarrow>
      case os_remove tar_path fs3 of
        Inl e \<Rightarrow> (Inl e, w\<lparr>fs := fs3\<rparr>)
      | Inr fs4 \<Rightarrow>
          (Inr gz_path, logging (INFO (''Created archive '' @ gz_path)) (w\<lparr>fs := fs4\<rparr>)))"

subsection \<open>Reliable Uploader: uploads and tags\<close>

text \<open>
  \<^verbatim>\<open>client.upload_file(file_path, bucket, key, ExtraArgs)\<close> reads the local file and
  stores it under \<open>key\<close>; how the transfer is split into parts is the library's business
  and leaves the stored bytes the same. \<^verbatim>\<open>put_object_tagging\<close> replaces the tag set of an
  object that exists.
\<close>

definition upload_file ::
  "env \<Rightarrow> string \<Rightarrow> string \<Rightarrow> string option \<Rightarrow> world \<Rightarrow> (error + unit) \<times> world" where
  "upload_file E file_path key ctype w =
     (case read_file file_path (fs w) of
        Inl e \<Rightarrow> (Inl e, w)
      | Inr data \<Rightarrow>
          (case s3_error E (PutObject key) of
             Some e \<Rightarrow> (Inl e, w)
           | None \<Rightarrow>
               (Inr (), w\<lparr>bucket := AList.update key
                           \<lparr>obj_body = data, obj_content_type = ctype, obj_tag_set = []\<rparr>
                           (bucket w)\<rparr>)))"

definition upload_archive_to_s3 ::
  "env \<Rightarrow> string \<Rightarrow> string \<Rightarrow> string \<Rightarrow> world \<Rightarrow> (error + unit) \<times> world" where
  "upload_archive_to_s3 E bucket_name file_path archive_name w =
     (case upload_file E file_path archive_name (Some ''application/gzip'') w of
        (Inl e, w') \<Rightarrow> (Inl e, w')
      | (Inr u, w') \<Rightarrow>
          (Inr (), logging (INFO (''Uploaded '' @ archive_name @ '' to S3 bucket '' @ bucket_name)) w'))"

text \<open>
  \<^verbatim>\<open>f"{tags}"\<close> is the \<open>repr\<close> of the dictionary; the keys and values the script tags
  with are plain words, whose \<open>repr\<close> is the word between single quotes.
\<close>

definition repr_str :: "string \<Rightarrow> string" where
  "repr_str s = [CHR 0x27] @ s @ [CHR 0x27]"

fun join_comma :: "string list \<Rightarrow> string" where
  "join_comma [] = []"
| "join_comma [x] = x"
| "join_comma (x # y # ys) = x @ '', '' @ join_comma (y # ys)"

definition repr_dict :: "(string \<times> string) list \<Rightarrow> string" where
  "repr_dict tags =
     ''{'' @ join_comma (map (\<lambda>(k, v). repr_str k @ '': '' @ repr_str v) tags) @ ''}''"

definition tag_archive ::
  "env \<Rightarrow> string \<Rightarrow> string \<Rightarrow> (string \<times> string) list \<Rightarrow> world \<Rightarrow> (error + unit) \<times> world" where
  "tag_archive E bucket_name archive_name tags w =
     (case s3_error E (PutObjectTagging archive_name) of
        Some e \<Rightarrow> (Inl e, w)
      | None \<Rightarrow>
          (case map_of (bucket w) archive_name of
             None \<Rightarrow> (Inl ClientError, w)
           | Some obj \<Rightarrow>
               (Inr (), logging (INFO (''Tagged '' @ archive_name @ '' with '' @ repr_dict tags))
                  (w\<lparr>bucket := AList.update archive_name (obj\<lparr>obj_tag_set := tags\<rparr>) (bucket w)\<rparr>))))"

definition upload_log_to_s3 ::
  "env \<Rightarrow> string \<Rightarrow> string \<Rightarrow> string \<Rightarrow> string \<Rightarrow> world \<Rightarrow> (error + unit) \<times> world" where
  "upload_log_to_s3 E bucket_name local_log_path s3_log_directory timestamp w =
     (let s3_log_path = s3_log_directory @ ''/python-log-'' @ timestamp @ ''.txt'' in
      case upload_file E local_log_path s3_log_path None w of
        (Inl e, w') \<Rightarrow> (Inl e, w')
      | (Inr u, w') \<Rightarrow> (Inr (), logging (INFO (''Uploaded log file to S3 at '' @ s3_log_path)) w'))"

subsection \<open>\<^verbatim>\<open>main\<close> and the script\<close>

text \<open>
  \<^verbatim>\<open>time.strftime('%Y-%m-%d-%H-%M-%S')\<close>: the year in decimal, the other fields in two
  digits.
\<close>

definition digit_char :: "nat \<Rightarrow> char" where
  "digit_char d = ''0123456789'' ! d"

fun decimal :: "nat \<Rightarrow> string" where
  "decimal n = (if n < 10 then [digit_char n] else decimal (n div 10) @ [digit_char (n mod 10)])"

declare decimal.simps [simp del]

definition two_digits :: "nat \<Rightarrow> string" where
  "two_digits n = (if n < 10 then CHR ''0'' # decimal n else decimal n)"

definition strftime :: "struct_time \<Rightarrow> string" where
  "strftime t =
     decimal (tm_year t) @ ''-'' @ two_digits (tm_mon t) @ ''-'' @ two_digits (tm_mday t)
       @ ''-'' @ two_digits (tm_hour t) @ ''-'' @ two_digits (tm_min t) @ ''-'' @ two_digits (tm_sec t)"

definition log_filename :: string where
  "log_filename = ''/tmp/s3_compression_log.txt''"

text \<open>
  \<^verbatim>\<open>
  def main():
      bucket_name = "my-app-090823"
      s3_log_directory = "archival-logs"
      timestamp = time.strftime('%Y-%m-%d-%H-%M-%S')
      s3 = configure_aws()
      ignore_patterns = [".tar.gz", s3_log_directory + "/"]
      local_dir = download_files(s3, bucket_name, ignore_patterns=ignore_patterns)
      archive_path = create_tar_gz_archive(local_dir, '/tmp/weekly-archive')
      archive_name = f"weekly-archive-{timestamp}.tar.gz"
      upload_archive_to_s3(s3, bucket_name, archive_path, archive_name)
      tag_archive(s3, bucket_name, archive_name, {"ArchiveStatus": "ReadyForGlacier"})
      upload_log_to_s3(s3, bucket_name, log_filename, s3_log_directory, timestamp)
      cleanup_local_resources()
  \<close>
\<close>

definition main :: "env \<Rightarrow> world \<Rightarrow> (error + unit) \<times> world" where
  "main E w =
     (let bucket_name = ''my-app-090823'';
          s3_log_directory = ''archival-logs'';
          timestamp = strftime (localtime E)
      in
      case configure_aws E w of
        (Inl e, w1) \<Rightarrow> (Inl e, w1)
      | (Inr s3, w1) \<Rightarrow>
      let ignore_patterns = [''.tar.gz'', s3_log_directory @ ''/''] in
      case download_files E ignore_patterns w1 of
        (Inl e, w2) \<Rightarrow> (Inl e, w2)
      | (Inr local_dir, w2) \<Rightarrow>
      case create_tar_gz_archive E local_dir ''/tmp/weekly-archive'' w2 of
        (Inl e, w3) \<Rightarrow> (Inl e, w3)
      | (Inr archive_path, w3) \<Rightarrow>
      let archive_name = ''weekly-archive-'' @ timestamp @ ''.tar.gz'' in
      case upload_archive_to_s3 E bucket_name archive_path archive_name w3 of
        (Inl e, w4) \<Rightarrow> (Inl e, w4)
      | (Inr u, w4) \<Rightarrow>
      case tag_archive E bucket_name archive_name [(''ArchiveStatus'', ''ReadyForGlacier'')] w4 of
        (Inl e, w5) \<Rightarrow> (Inl e, w5)
      | (Inr u, w5) \<Rightarrow>
      case upload_log_to_s3 E bucket_name log_filename s3_log_directory timestamp w5 of
        (Inl e, w6) \<Rightarrow> (Inl e, w6)
      | (Inr u, w6) \<Rightarrow> cleanup_local_resources w6)"

text \<open>
  \<^verbatim>\<open>
  if __name__ == "__main__":
      try:
          main()
      except Exception as e:
          logging.error(f"An error occurred in the main execution: {str(e)}")
          # Attempt to clean up even if an error occurs
          cleanup_local_resources()
  \<close>
  The interpreter exits with status 0 when the script runs to its end and with status 1
  when an exception leaves it. Before anything else the module opens the log file for
  appending (\<^verbatim>\<open>logging.FileHandler\<close>), which creates it when it is missing.
\<close>

fun append_entry :: "node option \<Rightarrow> error + node option" where
  "append_entry None = Inr (Some (File []))"
| "append_entry (Some (File b)) = Inr (Some (File b))"
| "append_entry (Some (Dir es)) = Inl IsADirectoryError"

definition open_log_file :: "node \<Rightarrow> error + node" where
  "open_log_file root_dir =
     (case resolve root_dir log_filename of
        Inl e \<Rightarrow> Inl e
      | Inr p \<Rightarrow> alter p append_entry root_dir)"

definition script :: "env \<Rightarrow> world \<Rightarrow> nat \<times> world" where
  "script E w =
     (case open_log_file (fs w) of
        Inl e \<Rightarrow> (1, w)
      | Inr root_dir \<Rightarrow>
          (case main E (w\<lparr>fs := root_dir\<rparr>) of
             (Inr u, w') \<Rightarrow> (0, w')
           | (Inl e, w') \<Rightarrow>
               (case cleanup_local_resources
                       (logging (ERROR (''An error occurred in the main execution: '' @ str_error e)) w') of
                  (Inr u, w'') \<Rightarrow> (0, w'')
                | (Inl e', w'') \<Rightarrow> (1, w''))))"

section \<open>Reasoning about the file system\<close>

subsection \<open>Notions used in the statements\<close>

definition valid_name :: "string \<Rightarrow> bool" where
  "valid_name n = (n \<noteq> [] \<and> CHR ''/'' \<notin> set n \<and> n \<noteq> ''.'' \<and> n \<noteq> ''..'')"

fun wf_node :: "node \<Rightarrow> bool" where
  "wf_node (File b) = True"
| "wf_node (Dir es) =
     (distinct (map fst es) \<and> list_all (\<lambda>(name, child). valid_name name \<and> wf_node child) es)"

fun put_at :: "string list \<Rightarrow> node \<Rightarrow> node \<Rightarrow> node" where
  "put_at [] m n = m"
| "put_at (c # p) m (File b) = File b"
| "put_at [c] m (Dir es) = Dir (AList.update c m es)"
| "put_at (c # d # p) m (Dir es) =
     (case map_of es c of
        None \<Rightarrow> Dir es
      | Some k \<Rightarrow> Dir (AList.update c (put_at (d # p) m k) es))"

fun remove_at :: "string list \<Rightarrow> node \<Rightarrow> node" where
  "remove_at [] n = n"
| "remove_at (c # p) (File b) = File b"
| "remove_at [c] (Dir es) = Dir (AList.delete c es)"
| "remove_at (c # d # p) (Dir es) =
     (case map_of es c of
        None \<Rightarrow> Dir es
      | Some k \<Rightarrow> Dir (AList.update c (remove_at (d # p) k) es))"

datatype entry = RegularFile bytes | Directory

definition entry_at :: "node \<Rightarrow> string list \<Rightarrow> entry option" where
  "entry_at root_dir p =
     (case lookup root_dir p of
        None \<Rightarrow> None
      | Some (File b) \<Rightarrow> Some (RegularFile b)
      | Some (Dir es) \<Rightarrow> Some Directory)"

definition is_dir_at :: "node \<Rightarrow> string list \<Rightarrow> bool" where
  "is_dir_at root_dir p = (entry_at root_dir p = Some Directory)"

definition ordinary :: "string \<Rightarrow> bool" where
  "ordinary c = (c \<noteq> ''.'' \<and> c \<noteq> ''..'')"

fun lexical :: "string list \<Rightarrow> string list \<Rightarrow> string list" where
  "lexical cur [] = cur"
| "lexical cur (c # cs) =
     (if c = ''.'' then lexical cur cs
      else if c = ''..'' then lexical (butlast cur) cs
      else lexical (cur @ [c]) cs)"



definition removable :: "node \<Rightarrow> string \<Rightarrow> bool" where
  "removable n s =
     (is_dir_at n (path_names s)
      \<or> (\<not> endswith s ''/'' \<and> (\<exists>b. lookup n (path_names s) = Some (File b))))"

definition clear_path :: "string \<Rightarrow> node \<Rightarrow> node" where
  "clear_path s n = (if removable n s then remove_at (path_names s) n else n)"

definition cleaned :: "node \<Rightarrow> node" where
  "cleaned n =
     clear_path ''/tmp/s3_compression_log.txt''
       (clear_path ''/tmp/weekly-archive.tar.gz'' (clear_path ''/tmp/s3_files/'' n))"

fun deepest_first :: "string list list \<Rightarrow> bool" where
  "deepest_first [] = True"
| "deepest_first (p # ps) = (list_all (\<lambda>q. \<not> strict_prefix p q) ps \<and> deepest_first ps)"

definition walk_dirs :: "string \<Rightarrow> node \<Rightarrow> string list list" where
  "walk_dirs top_dir t = map (\<lambda>triple. path_names (fst triple)) (os_walk top_dir t)"

text \<open>The members \<^verbatim>\<open>main\<close>'s call of the Archive Builder adds for the tree at the working root.\<close>

definition working_root_members :: "env \<Rightarrow> node \<Rightarrow> tar_member list" where
  "working_root_members E t =
     tar_add_node (os_path_abspath ''/tmp/weekly-archive.tar'') (lstat_attrs E)
       ''/tmp/s3_files/'' (os_path_basename ''/tmp/s3_files/'') t"

text \<open>
  The Selective Mirror: \<open>target key\<close> is where the path \<^verbatim>\<open>os.path.join(local_dir, key)\<close>
  leads (its names with \<^verbatim>\<open>.\<close> dropped and \<^verbatim>\<open>..\<close> followed), \<open>local_path key\<close> is the
  working root followed by the names of the key, and \<open>mirrored_by place R objs q\<close> is the
  body of the last listed object that no rule of \<open>R\<close> ignores and whose key is placed
  at \<open>q\<close>.
\<close>

definition is_file_with :: "node \<Rightarrow> string list \<Rightarrow> bytes \<Rightarrow> bool" where
  "is_file_with n p b = (entry_at n p = Some (RegularFile b))"

definition target :: "string \<Rightarrow> string list" where
  "target key = lexical [] (path_components (os_path_join ''/tmp/s3_files/'' key))"

definition mirrored_by ::
  "(string \<Rightarrow> string list) \<Rightarrow> string list \<Rightarrow> (string \<times> s3_object) list \<Rightarrow> string list \<Rightarrow> bytes option" where
  "mirrored_by place ignore_patterns objs q =
     map_of (rev (map (\<lambda>obj. (place (fst obj), obj_body (snd obj)))
                      (filter (\<lambda>obj. \<not> ignored ignore_patterns (fst obj)) objs))) q"

definition local_path :: "string \<Rightarrow> string list" where
  "local_path key = [''tmp'', ''s3_files''] @ filter (\<lambda>c. c \<noteq> ''.'') (path_names key)"

definition safe_key :: "string \<Rightarrow> bool" where
  "safe_key key = (\<not> startswith key ''/'' \<and> ''..'' \<notin> set (path_names key))"


text \<open>
  The system calls of the directory branch of \<^verbatim>\<open>cleanup_local_resources\<close> in the order
  the loops issue them: for every triple of the walk the \<^verbatim>\<open>os.remove\<close> of its files, then
  the \<^verbatim>\<open>os.rmdir\<close> of its subdirectories, and \<^verbatim>\<open>os.rmdir(path)\<close> at the end.
  \<open>removal_order\<close> lists the places the calls remove, in that order.
\<close>

datatype fs_call = Remove string | Rmdir string

fun call_path :: "fs_call \<Rightarrow> string" where
  "call_path (Remove p) = p"
| "call_path (Rmdir p) = p"


definition walk_calls :: "string \<times> string list \<times> string list \<Rightarrow> fs_call list" where
  "walk_calls triple =
     (case triple of (walk_root, dirs, files) \<Rightarrow>
        map (\<lambda>name. Remove (os_path_join walk_root name)) files
        @ map (\<lambda>name. Rmdir (os_path_join walk_root name)) dirs)"



definition walk_targets :: "string \<Rightarrow> node \<Rightarrow> string list list" where
  "walk_targets top_dir t =
     map (\<lambda>c. path_names (call_path c)) (concat (map walk_calls (os_walk top_dir t)))"

subsection \<open>File systems and an environment to run the functions on\<close>



definition mirrored_fs :: node where
  "mirrored_fs = Dir [(''tmp'', Dir [(''s3_files'', Dir [(''a.txt'', File [1, 2])])])]"

definition blocked_fs :: node where
  "blocked_fs =
     Dir [(''tmp'', Dir [(''s3_files'', Dir [(''a.txt'', File [1, 2])]),
                         (''weekly-archive.tar.gz'', Dir [])])]"

definition world_of :: "node \<Rightarrow> world" where
  "world_of n = \<lparr>fs = n, bucket = [], console = []\<rparr>"

definition example_env :: env where
  "example_env =
     \<lparr>session_error = None, s3_error = (\<lambda>c. None),
      localtime = \<lparr>tm_year = 2024, tm_mon = 3, tm_mday = 9, tm_hour = 7, tm_min = 5, tm_sec = 0\<rparr>,
      time_time = 1700000000,
      lstat_attrs = (\<lambda>p. \<lparr>st_mode = 420, st_uid = 0, st_gid = 0, st_mtime = 0\<rparr>),
      tar_encode = (\<lambda>ms. concat (map (\<lambda>m. encode_latin1 (tm_name m) @ [0] @ tm_data m) ms)),
      deflate = (\<lambda>b. b), crc32 = (\<lambda>b. 0)\<rparr>"

definition plain_object :: "bytes \<Rightarrow> s3_object" where
  "plain_object b = \<lparr>obj_body = b, obj_content_type = None, obj_tag_set = []\<rparr>"


definition escape_world :: world where
  "escape_world =
     \<lparr>fs = Dir [(''tmp'', Dir [])], bucket = [(''/x'', plain_object [1])], console = []\<rparr>"


definition file_at_root_world :: world where
  "file_at_root_world =
     \<lparr>fs = Dir [(''tmp'', Dir [(''s3_files'', File [7])])], bucket = [], console = []\<rparr>"

definition dir_at_archive_world :: world where
  "dir_at_archive_world =
     \<lparr>fs = Dir [(''tmp'', Dir [(''weekly-archive.tar.gz'', Dir [(''keep.txt'', File [7])])])],
      bucket = [], console = []\<rparr>"

subsection \<open>Rounding to a double\<close>

lemma bitlen_powi:
  assumes "0 < p"
  shows "(2::rat) powi (bitlen p - 1) \<le> of_int p" "(of_int p :: rat) < 2 powi bitlen p"
proof -
  have b: "2 ^ nat (bitlen p - 1) \<le> p" "p < 2 ^ nat (bitlen p)"
    using bitlen_bounds [OF assms] by simp_all
  have ge: "1 \<le> bitlen p" using assms bitlen_eq_zero_iff [of p] bitlen_nonneg [of p] by linarith
  have "(of_int (2 ^ nat (bitlen p - 1)) :: rat) \<le> of_int p" using b(1) by (simp only: of_int_le_iff)
  then show "(2::rat) powi (bitlen p - 1) \<le> of_int p"
    using ge by (simp add: power_int_nonneg_exp)
  have "(of_int p :: rat) < of_int (2 ^ nat (bitlen p))" using b(2) by (simp only: of_int_less_iff)
  then show "(of_int p :: rat) < 2 powi bitlen p"
    using ge by (simp add: power_int_nonneg_exp)
qed

lemma ilog2_bounds:
  assumes "0 < x"
  shows "2 powi ilog2 x \<le> x" "x < 2 powi (ilog2 x + 1)"
proof -
  obtain p q where pq: "quotient_of x = (p, q)" by (cases "quotient_of x")
  have q: "0 < q" using pq by (rule quotient_of_denom_pos)
  have x: "x = of_int p / of_int q" using pq by (rule quotient_of_div)
  have p: "0 < p" using assms q x by (simp add: zero_less_divide_iff)
  let ?d = "bitlen p - bitlen q"
  note bp = bitlen_powi [OF p] and bq = bitlen_powi [OF q]
  have pos: "(0::rat) < 2 powi k" for k by simp
  have lo: "2 powi (?d - 1) \<le> x"
  proof -
    have "2 powi (?d - 1) = (2::rat) powi (bitlen p - 1) / 2 powi bitlen q"
      by (simp add: power_int_diff)
    also have "\<dots> \<le> of_int p / 2 powi bitlen q"
      using bp(1) by (simp add: divide_right_mono)
    also have "\<dots> \<le> of_int p / of_int q"
      using bq(2) p q by (simp add: frac_le)
    finally show ?thesis using x by simp
  qed
  have hi: "x < 2 powi (?d + 1)"
  proof -
    have "x < 2 powi bitlen p / of_int q"
      using bp(2) q x by (simp add: divide_strict_right_mono)
    also have "\<dots> \<le> 2 powi bitlen p / 2 powi (bitlen q - 1)"
      using bq(1) by (simp add: frac_le)
    also have "\<dots> = 2 powi (?d + 1)"
      by (simp add: power_int_diff power_int_add)
    finally show ?thesis .
  qed
  show "2 powi ilog2 x \<le> x" using lo pq by (simp add: ilog2_def Let_def)
  show "x < 2 powi (ilog2 x + 1)" using hi pq by (auto simp: ilog2_def Let_def)
qed

lemma round_half_even_error: "\<bar>of_int (round_half_even y) - y\<bar> \<le> 1 / 2"
proof -
  have "of_int \<lfloor>y\<rfloor> \<le> y" "y < of_int \<lfloor>y\<rfloor> + 1" by linarith+
  then show ?thesis by (auto simp: round_half_even_def Let_def)
qed

lemma powi_less_cancel: "(2::rat) powi a < 2 powi b \<Longrightarrow> a < b"
  using power_int_increasing [of b a "2::rat"] by (cases "a < b") auto

lemma max_double: "(of_int (2 ^ 1024) :: rat) = 2 powi 1024"
  by simp

lemma round_double_normal:
  assumes "2 powi lo \<le> x" "x < 2 powi hi" "- 1022 \<le> lo" "hi \<le> 1023"
  shows "\<exists>r. round_double x = Some r \<and> \<bar>r - x\<bar> \<le> x / 2 ^ 53"
proof -
  have x: "0 < x" using assms(1) zero_less_power_int [of "2::rat" lo] by linarith
  define e where "e = ilog2 x"
  have b: "2 powi e \<le> x" "x < 2 powi (e + 1)" using ilog2_bounds [OF x] by (simp_all add: e_def)
  have "(2::rat) powi lo < 2 powi (e + 1)" using assms(1) b(2) by linarith
  then have lo: "- 1022 \<le> e" using powi_less_cancel [of lo "e + 1"] assms(3) by linarith
  have "(2::rat) powi e < 2 powi hi" using assms(2) b(1) by linarith
  then have hi: "e \<le> 1022" using powi_less_cancel [of e hi] assms(4) by linarith
  define q where "q = e - 52"
  have qmax: "max (ilog2 x - 52) (- 1074) = q" using lo by (simp add: q_def e_def)
  define m where "m = round_half_even (x / 2 powi q)"
  define r where "r = of_int m * (2::rat) powi q"
  have pq: "(0::rat) < 2 powi q" by simp
  have "r - x = (of_int m - x / 2 powi q) * 2 powi q"
    by (simp add: r_def left_diff_distrib)
  then have "\<bar>r - x\<bar> = \<bar>of_int m - x / 2 powi q\<bar> * 2 powi q"
    by (simp add: abs_mult)
  also have "\<dots> \<le> 1 / 2 * 2 powi q"
    using round_half_even_error [of "x / 2 powi q"] pq
    by (intro mult_right_mono) (simp_all add: m_def)
  also have "\<dots> = 2 powi e / 2 ^ 53"
    by (simp add: q_def power_int_diff)
  also have "\<dots> \<le> x / 2 ^ 53"
    using b(1) by (simp add: divide_right_mono)
  finally have err: "\<bar>r - x\<bar> \<le> x / 2 ^ 53" .
  have "x / 2 ^ 53 \<le> x" using x by (simp add: field_simps)
  then have "r \<le> 2 * x" using err by linarith
  also have "\<dots> < 2 * 2 powi (e + 1)" using b(2) by simp
  also have "\<dots> = 2 powi (e + 2)"
    using power_int_add [of "2::rat" "e + 1" 1] by (simp add: mult.commute add.commute)
  also have "\<dots> \<le> 2 powi 1024"
    using hi by (intro power_int_increasing) simp_all
  finally have "r < of_int (2 ^ 1024)" by (simp only: max_double)
  then have "round_double x = Some r"
    using x qmax unfolding round_double_def Let_def r_def m_def by simp
  then show ?thesis using err by blast
qed

lemma round_half_even_ge_floor: "\<lfloor>y\<rfloor> \<le> round_half_even y"
  by (simp add: round_half_even_def Let_def)

lemma round_double_overflow:
  assumes "2 powi 1024 \<le> x"
  shows "round_double x = None"
proof -
  have x: "0 < x" using assms zero_less_power_int [of "2::rat" 1024] by linarith
  define e where "e = ilog2 x"
  have b: "2 powi e \<le> x" "x < 2 powi (e + 1)" using ilog2_bounds [OF x] by (simp_all add: e_def)
  have "(2::rat) powi 1024 < 2 powi (e + 1)" using assms b(2) by linarith
  then have e: "1024 \<le> e" using powi_less_cancel [of 1024 "e + 1"] by linarith
  define q where "q = e - 52"
  have qmax: "max (ilog2 x - 52) (- 1074) = q" using e by (simp add: q_def e_def)
  define m where "m = round_half_even (x / 2 powi q)"
  have "(2::rat) powi 52 = 2 powi e / 2 powi q" by (simp add: q_def power_int_diff)
  also have "\<dots> \<le> x / 2 powi q" using b(1) by (simp add: divide_right_mono)
  finally have "(of_int (2 ^ 52) :: rat) \<le> x / 2 powi q" by simp
  then have "2 ^ 52 \<le> \<lfloor>x / 2 powi q\<rfloor>" by (simp only: le_floor_iff)
  then have "2 ^ 52 \<le> m"
    unfolding m_def using round_half_even_ge_floor [of "x / 2 powi q"] by (rule order_trans)
  then have "(of_int (2 ^ 52) :: rat) \<le> of_int m" by (simp only: of_int_le_iff)
  then have "(2::rat) powi 52 * 2 powi q \<le> of_int m * 2 powi q"
    by (intro mult_right_mono) simp_all
  moreover have "(2::rat) powi 52 * 2 powi q = 2 powi e"
    using power_int_add [of "2::rat" 52 q] by (simp add: q_def)
  moreover have "(2::rat) powi 1024 \<le> 2 powi e" using e by (intro power_int_increasing) simp_all
  ultimately have "of_int (2 ^ 1024) \<le> of_int m * (2::rat) powi q"
    by (simp only: max_double)
  then show ?thesis
    using x qmax unfolding round_double_def Let_def m_def by simp
qed

lemma round_double_0: "round_double 0 = Some 0"
  by (simp add: round_double_def)

lemma savings_in_range:
  assumes "0 < x" "2 powi (- 1000) \<le> x" "x < 2 powi 1000"
  shows "\<exists>r p. round_double x = Some r \<and> round_double (r * 100) = Some p
           \<and> 0 < r \<and> 0 < p
           \<and> \<bar>r - x\<bar> \<le> x / 2 ^ 53
           \<and> \<bar>p - r * 100\<bar> \<le> r * 100 / 2 ^ 53
           \<and> \<bar>p - x * 100\<bar> \<le> x * 100 / 2 ^ 51"
proof -
  obtain r where r: "round_double x = Some r" "\<bar>r - x\<bar> \<le> x / 2 ^ 53"
    using round_double_normal [OF assms(2,3)] by auto
  have half: "x / 2 ^ 53 \<le> x / 2" using assms(1) by (simp add: field_simps)
  have rb: "x / 2 \<le> r" "r \<le> 2 * x" using r(2) half assms(1) by linarith+
  have rpos: "0 < r" using rb(1) assms(1) by linarith
  have "(2::rat) powi (- 1000) \<le> r * 100" using rb(1) assms(2) assms(1) by linarith
  moreover have "r * 100 < 2 powi 1008"
  proof -
    have "r * 100 \<le> 200 * x" using rb(2) by linarith
    also have "\<dots> < 256 * 2 powi 1000" using assms(3) assms(1) by linarith
    also have "\<dots> = 2 powi 1008" using power_int_add [of "2::rat" 8 1000] by simp
    finally show ?thesis .
  qed
  ultimately obtain p where p: "round_double (r * 100) = Some p"
      "\<bar>p - r * 100\<bar> \<le> r * 100 / 2 ^ 53"
    using round_double_normal [of "- 1000" "r * 100" 1008] by auto
  have "r * 100 / 2 ^ 53 \<le> r * 100 / 2" using rpos by (simp add: field_simps)
  then have ppos: "0 < p" using p(2) rpos by linarith
  have "\<bar>r * 100 - x * 100\<bar> = \<bar>r - x\<bar> * 100"
    using abs_mult [of "r - x" 100] by (simp add: left_diff_distrib)
  then have "\<bar>p - x * 100\<bar> \<le> \<bar>p - r * 100\<bar> + \<bar>r - x\<bar> * 100" by linarith
  also have "\<dots> \<le> r * 100 / 2 ^ 53 + x / 2 ^ 53 * 100"
    using p(2) r(2) by (intro add_mono mult_right_mono) simp_all
  also have "\<dots> \<le> 2 * x * 100 / 2 ^ 53 + x / 2 ^ 53 * 100"
    using rb(2) by (simp add: field_simps)
  also have "\<dots> \<le> x * 100 / 2 ^ 51" using assms(1) by (simp add: field_simps)
  finally have "\<bar>p - x * 100\<bar> \<le> x * 100 / 2 ^ 51" .
  then show ?thesis using r p rpos ppos by blast
qed

lemma of_int_two_power: "(of_int (2 ^ n) :: rat) = 2 powi int n"
  by simp

subsection \<open>Paths and the tree\<close>

lemma split_slash_not_Nil [simp]: "split_slash s \<noteq> []"
  by (induction s) (auto split: list.splits)

lemma split_slash_no_slash: "CHR ''/'' \<notin> set s \<Longrightarrow> split_slash s = [s]"
  by (induction s) auto

lemma split_slash_append: "split_slash (a @ CHR ''/'' # b) = split_slash a @ split_slash b"
  by (induction a) (auto split: list.splits)

lemma path_names_append: "path_names (a @ CHR ''/'' # b) = path_names a @ path_names b"
  by (simp add: path_names_def split_slash_append)

lemma path_names_Nil [simp]: "path_names [] = []"
  by (simp add: path_names_def)

lemma path_names_name: "valid_name n \<Longrightarrow> path_names n = [n]"
  by (simp add: path_names_def valid_name_def split_slash_no_slash)

lemma endswith_slash_iff: "endswith s ''/'' \<longleftrightarrow> (s \<noteq> [] \<and> last s = CHR ''/'')"
proof (cases s rule: rev_cases)
  case Nil then show ?thesis by (simp add: endswith_def)
next
  case (snoc ys y) then show ?thesis by (auto simp: endswith_def)
qed

lemma startswith_slash_iff: "startswith s ''/'' \<longleftrightarrow> (s \<noteq> [] \<and> hd s = CHR ''/'')"
  by (cases s) (auto simp: startswith_def)

lemma path_names_snoc_slash: "path_names (a @ ''/'') = path_names a"
  using path_names_append [of a "[]"] by (simp add: path_names_def)

lemma path_names_join:
  assumes "valid_name n"
  shows "path_names (os_path_join r n) = path_names r @ [n]"
proof -
  have ns: "\<not> startswith n ''/''"
    using assms by (cases n) (auto simp: startswith_def valid_name_def)
  show ?thesis
  proof (cases "r = [] \<or> endswith r ''/''")
    case True
    then show ?thesis
    proof
      assume "r = []"
      then show ?thesis using ns assms by (simp add: os_path_join_def path_names_name)
    next
      assume e: "endswith r ''/''"
      then obtain r' where r: "r = r' @ ''/''"
        by (metis append_butlast_last_id endswith_slash_iff)
      have "os_path_join r n = r' @ CHR ''/'' # n"
        using ns e by (simp add: os_path_join_def r)
      then show ?thesis
        using assms by (simp add: path_names_append path_names_name r path_names_snoc_slash)
    qed
  next
    case False
    then have "os_path_join r n = r @ CHR ''/'' # n"
      using ns by (simp add: os_path_join_def)
    then show ?thesis using assms by (simp add: path_names_append path_names_name)
  qed
qed

lemma join_not_endswith_slash:
  assumes "valid_name n"
  shows "\<not> endswith (os_path_join r n) ''/''"
proof -
  have "n \<noteq> []" "CHR ''/'' \<notin> set n" using assms by (simp_all add: valid_name_def)
  then have "last n \<noteq> CHR ''/''" "n \<noteq> []"
    by (metis last_in_set)+
  then show ?thesis
    by (auto simp: os_path_join_def endswith_slash_iff)
qed


lemma path_components_join:
  "valid_name n \<Longrightarrow> path_components (os_path_join r n) = path_names r @ [n]"
  by (simp add: path_components_def path_names_join join_not_endswith_slash)

lemma lookup_append:
  "lookup n (a @ b) = (case lookup n a of None \<Rightarrow> None | Some m \<Rightarrow> lookup m b)"
proof (induction a arbitrary: n)
  case Nil then show ?case by simp
next
  case (Cons c a)
  then show ?case by (cases n) (auto split: option.splits)
qed

lemma lookup_File: "lookup (File b) p = (if p = [] then Some (File b) else None)"
  by (cases p) auto

lemma entry_at_Nil [simp]:
  "entry_at (Dir es) [] = Some Directory" "entry_at (File b) [] = Some (RegularFile b)"
  by (simp_all add: entry_at_def)

lemma entry_at_Cons [simp]:
  "entry_at (File b) (c # q) = None"
  "entry_at (Dir es) (c # q) = (case map_of es c of None \<Rightarrow> None | Some k \<Rightarrow> entry_at k q)"
  by (simp_all add: entry_at_def split: option.splits)

lemma is_dir_at_Nil [simp]: "is_dir_at n [] \<longleftrightarrow> (\<exists>es. n = Dir es)"
  by (cases n) (auto simp: is_dir_at_def)

lemma is_dir_at_Cons [simp]:
  "is_dir_at (File b) (c # q) = False"
  "is_dir_at (Dir es) (c # q) = (case map_of es c of None \<Rightarrow> False | Some k \<Rightarrow> is_dir_at k q)"
  by (simp_all add: is_dir_at_def split: option.splits)

lemma is_dir_at_lookup: "is_dir_at n p \<longleftrightarrow> (\<exists>es. lookup n p = Some (Dir es))"
  by (auto simp: is_dir_at_def entry_at_def split: option.splits node.splits)

lemma is_dir_at_prefix:
  assumes "lookup n (a @ b) = Some m" "b \<noteq> []"
  shows "is_dir_at n a"
proof -
  from assms obtain k where k: "lookup n a = Some k" "lookup k b = Some m"
    by (auto simp: lookup_append split: option.splits)
  with assms(2) obtain es where "k = Dir es"
    by (cases k) (auto simp: lookup_File)
  with k show ?thesis by (simp add: is_dir_at_lookup)
qed

lemma is_dir_at_butlast: "is_dir_at n p \<Longrightarrow> is_dir_at n (butlast p)"
proof (cases p rule: rev_cases)
  case Nil then show "is_dir_at n p \<Longrightarrow> ?thesis" by simp
next
  case (snoc q c)
  assume "is_dir_at n p"
  then obtain es where "lookup n (q @ [c]) = Some (Dir es)"
    using snoc by (auto simp: is_dir_at_lookup)
  then have "is_dir_at n q" by (rule is_dir_at_prefix) simp
  then show ?thesis using snoc by simp
qed

lemma alter_eq:
  "p \<noteq> [] \<Longrightarrow> is_dir_at n (butlast p) \<Longrightarrow>
   alter p f n =
     (case f (lookup n p) of
        Inl e \<Rightarrow> Inl e
      | Inr None \<Rightarrow> Inr (remove_at p n)
      | Inr (Some m) \<Rightarrow> Inr (put_at p m n))"
proof (induction p f n rule: alter.induct)
  case (1 f n) then show ?case by simp
next
  case (2 c p f b) then show ?case by (cases p) auto
next
  case (3 c f es) then show ?case by (auto split: sum.splits option.splits)
next
  case (4 c d p f es)
  then show ?case
    by (auto split: sum.splits option.splits)
qed

lemma entry_at_put_at:
  "\<not> prefix p q \<Longrightarrow> entry_at (put_at p m n) q = entry_at n q"
proof (induction p m n arbitrary: q rule: put_at.induct)
  case (1 m n) then show ?case by simp
next
  case (2 c p m b) then show ?case by simp
next
  case (3 c m es)
  then show ?case by (cases q) (auto simp: update_conv')
next
  case (4 c d p m es)
  then show ?case
    by (cases q) (auto simp: update_conv' split: option.splits)
qed


lemma lookup_put_at_other:
  "\<not> prefix p q \<Longrightarrow> \<not> prefix q p \<Longrightarrow> lookup (put_at p m n) q = lookup n q"
proof (induction p m n arbitrary: q rule: put_at.induct)
  case (1 m n) then show ?case by simp
next
  case (2 c p m b) then show ?case by simp
next
  case (3 c m es)
  then show ?case by (cases q) (auto simp: update_conv')
next
  case (4 c d p m es)
  then show ?case
    by (cases q) (auto simp: update_conv' split: option.splits)
qed

lemma lookup_remove_at_other:
  "\<not> prefix p q \<Longrightarrow> \<not> prefix q p \<Longrightarrow> lookup (remove_at p n) q = lookup n q"
proof (induction p n arbitrary: q rule: remove_at.induct)
  case (1 n) then show ?case by simp
next
  case (2 c p b) then show ?case by simp
next
  case (3 c es)
  then show ?case by (cases q) (auto simp: delete_conv')
next
  case (4 c d p es)
  then show ?case
    by (cases q) (auto simp: update_conv' split: option.splits)
qed

lemma lookup_put_at_same:
  "is_dir_at n (butlast p) \<Longrightarrow> p \<noteq> [] \<Longrightarrow> lookup (put_at p m n) (p @ q) = lookup m q"
proof (induction p m n rule: put_at.induct)
  case (1 m n) then show ?case by simp
next
  case (2 c p m b) then show ?case by (cases p) auto
next
  case (3 c m es)
  then show ?case by (auto simp: update_conv')
next
  case (4 c d p m es)
  then show ?case
    by (auto simp: update_conv' split: option.splits)
qed







lemma wf_node_Dir:
  "wf_node (Dir es) \<longleftrightarrow>
     distinct (map fst es) \<and> (\<forall>e \<in> set es. valid_name (fst e) \<and> wf_node (snd e))"
  by (auto simp: list_all_iff)










lemma walk_path_lexical: "walk_path n cur p = Inr q \<Longrightarrow> q = lexical cur p"
  by (induction p arbitrary: cur) (auto split: option.splits node.splits if_splits)

lemma lexical_ordinary: "list_all ordinary p \<Longrightarrow> lexical cur p = cur @ p"
  by (induction p arbitrary: cur) (auto simp: ordinary_def)

lemma lexical_append: "lexical cur (a @ b) = lexical (lexical cur a) b"
  by (induction a arbitrary: cur) auto

lemma walk_path_append:
  "walk_path n cur (a @ b) = (case walk_path n cur a of Inl e \<Rightarrow> Inl e | Inr q \<Rightarrow> walk_path n q b)"
  by (induction a arbitrary: cur) (auto split: option.splits node.splits)

lemma walk_path_ordinary:
  "list_all ordinary p \<Longrightarrow> p = [] \<or> is_dir_at n (cur @ butlast p) \<Longrightarrow> walk_path n cur p = Inr (cur @ p)"
proof (induction p arbitrary: cur)
  case Nil then show ?case by simp
next
  case (Cons c cs)
  then have d: "is_dir_at n (cur @ butlast (c # cs))" by simp
  have "is_dir_at n cur"
  proof (cases cs)
    case Nil then show ?thesis using d by simp
  next
    case (Cons x xs)
    from d obtain es where "lookup n (cur @ butlast (c # cs)) = Some (Dir es)"
      by (auto simp: is_dir_at_lookup)
    then show ?thesis by (rule is_dir_at_prefix) (simp add: Cons)
  qed
  then obtain es where es: "lookup n cur = Some (Dir es)" by (auto simp: is_dir_at_lookup)
  have "cs = [] \<or> is_dir_at n ((cur @ [c]) @ butlast cs)" using d by (cases cs) auto
  with Cons.IH [of "cur @ [c]"] Cons.prems(1)
  have "walk_path n (cur @ [c]) cs = Inr ((cur @ [c]) @ cs)" by simp
  then show ?case using es Cons.prems(1) by (simp add: ordinary_def)
qed

lemma walk_path_dot: "is_dir_at n cur \<Longrightarrow> walk_path n cur [''.''] = Inr cur"
  by (auto simp: is_dir_at_lookup)

lemma resolve_dir:
  assumes "s \<noteq> []" "list_all ordinary (path_names s)" "is_dir_at n (path_names s)"
  shows "resolve n s = Inr (path_names s)"
proof -
  have "path_names s = [] \<or> is_dir_at n ([] @ butlast (path_names s))"
    using assms(3) is_dir_at_butlast by auto
  then have w: "walk_path n [] (path_names s) = Inr (path_names s)"
    using walk_path_ordinary [OF assms(2), of n "[]"] by simp
  show ?thesis
    using assms(1) w walk_path_dot [OF assms(3)]
    by (simp add: resolve_def path_components_def walk_path_append)
qed

lemma resolve_entry:
  assumes "s \<noteq> []" "list_all ordinary (path_names s)" "\<not> endswith s ''/''"
    and "path_names s = [] \<or> is_dir_at n (butlast (path_names s))"
  shows "resolve n s = Inr (path_names s)"
  using assms walk_path_ordinary [OF assms(2), of n "[]"]
  by (simp add: resolve_def path_components_def)

lemma resolve_lexical:
  assumes "resolve n s = Inr p" "list_all ordinary (path_names s)"
  shows "p = path_names s"
proof -
  from assms(1) have "p = lexical [] (path_components s)"
    by (auto simp: resolve_def split: if_splits dest: walk_path_lexical)
  then show ?thesis using assms(2)
    by (simp add: path_components_def lexical_append lexical_ordinary)
qed

lemma resolve_trailing:
  assumes "resolve n s = Inr p" "endswith s ''/''"
  shows "is_dir_at n p"
proof -
  from assms have "walk_path n [] (path_names s @ [''.'']) = Inr p"
    by (auto simp: resolve_def path_components_def split: if_splits)
  then obtain q where "walk_path n q [''.''] = Inr p"
    by (auto simp: walk_path_append split: sum.splits)
  then show ?thesis
    by (auto simp: is_dir_at_lookup split: option.splits node.splits)
qed






lemma remove_at_absent: "lookup n p = None \<Longrightarrow> remove_at p n = n"
proof (induction p n rule: remove_at.induct)
  case (1 n) then show ?case by simp
next
  case (2 c p b) then show ?case by simp
next
  case (3 c es)
  then have "c \<notin> fst ` set es"
    by (auto split: option.splits simp: map_of_eq_None_iff)
  then show ?case by simp
next
  case (4 c d p es) then show ?case by (auto simp: update_triv split: option.splits)
qed

lemma parent_is_dir:
  assumes "lookup n d = Some x" "d \<noteq> []"
  shows "is_dir_at n (butlast d)"
proof -
  from assms(2) have "d = butlast d @ [last d]" by simp
  with assms(1) have "lookup n (butlast d @ [last d]) = Some x" by simp
  then show ?thesis by (rule is_dir_at_prefix) simp
qed
















lemma path_names_temp:
  "path_names ''/tmp/s3_files/'' = [''tmp'', ''s3_files'']"
  "path_names ''/tmp/weekly-archive.tar.gz'' = [''tmp'', ''weekly-archive.tar.gz'']"
  "path_names ''/tmp/s3_compression_log.txt'' = [''tmp'', ''s3_compression_log.txt'']"
  by (simp_all add: path_names_def)




lemma ordinary_temp:
  "list_all ordinary (path_names ''/tmp/s3_files/'')"
  "list_all ordinary (path_names ''/tmp/weekly-archive.tar.gz'')"
  "list_all ordinary (path_names ''/tmp/s3_compression_log.txt'')"
  by (simp_all add: path_names_temp ordinary_def)


lemma entry_at_remove_no_create: "entry_at n q = None \<Longrightarrow> entry_at (remove_at p n) q = None"
proof (induction p n arbitrary: q rule: remove_at.induct)
  case (1 n) then show ?case by simp
next
  case (2 c p b) then show ?case by simp
next
  case (3 c es)
  then show ?case by (cases q) (auto simp: delete_conv' split: option.splits)
next
  case (4 c d p es)
  then show ?case
    by (cases q) (auto simp: update_conv' split: option.splits)
qed

lemma entry_at_clear_no_create: "entry_at n q = None \<Longrightarrow> entry_at (clear_path s n) q = None"
  by (simp add: clear_path_def entry_at_remove_no_create)




lemma deepest_first_append:
  "deepest_first (xs @ ys) \<longleftrightarrow>
     deepest_first xs \<and> deepest_first ys \<and> (\<forall>p \<in> set xs. \<forall>q \<in> set ys. \<not> strict_prefix p q)"
  by (induction xs) (auto simp: list_all_iff)

lemma walk_dirs_File [simp]: "walk_dirs top_dir (File b) = []"
  by (simp add: walk_dirs_def)

lemma walk_dirs_Dir:
  "walk_dirs top_dir (Dir es) =
     concat (map (\<lambda>e. walk_dirs (os_path_join top_dir (fst e)) (snd e)) es) @ [path_names top_dir]"
  by (simp add: walk_dirs_def map_concat comp_def case_prod_beta)

lemma walk_dirs_beneath:
  "wf_node t \<Longrightarrow> p \<in> set (walk_dirs top_dir t) \<Longrightarrow> prefix (path_names top_dir) p"
proof (induction top_dir t arbitrary: p rule: os_walk.induct)
  case (1 top_dir b) then show ?case by simp
next
  case (2 top_dir es)
  have wf: "\<forall>e \<in> set es. valid_name (fst e) \<and> wf_node (snd e)"
    using "2.prems"(1) by (simp del: wf_node.simps add: wf_node_Dir)
  from "2.prems"(2) consider "p = path_names top_dir"
    | e where "e \<in> set es" "p \<in> set (walk_dirs (os_path_join top_dir (fst e)) (snd e))"
    by (auto simp: walk_dirs_Dir)
  then show ?case
  proof cases
    case 1 then show ?thesis by simp
  next
    case (2 e)
    then have "prefix (path_names (os_path_join top_dir (fst e))) p"
      using "2.IH" [of e "fst e" "snd e" p] wf by simp
    then show ?thesis using wf 2(1) by (auto simp: path_names_join dest: append_prefixD)
  qed
qed

lemma os_walk_deepest_first: "wf_node t \<Longrightarrow> deepest_first (walk_dirs top_dir t)"
proof (induction top_dir t rule: os_walk.induct)
  case (1 top_dir b) then show ?case by simp
next
  case (2 top_dir es)
  have wf: "distinct (map fst es)" "\<forall>e \<in> set es. valid_name (fst e) \<and> wf_node (snd e)"
    using "2.prems"(1) by (simp_all del: wf_node.simps add: wf_node_Dir)
  let ?sub = "\<lambda>e. walk_dirs (os_path_join top_dir (fst e)) (snd e)"
  have beneath: "prefix (path_names top_dir @ [fst e]) p" if "e \<in> set es" "p \<in> set (?sub e)" for e p
    using walk_dirs_beneath [of "snd e" p "os_path_join top_dir (fst e)"] that wf(2)
    by (simp add: path_names_join)
  have children: "set xs \<subseteq> set es \<Longrightarrow> distinct (map fst xs) \<Longrightarrow> deepest_first (concat (map ?sub xs))" for xs
  proof (induction xs)
    case Nil then show ?case by simp
  next
    case (Cons e xs)
    have e: "e \<in> set es" using Cons.prems(1) by simp
    have 1: "deepest_first (?sub e)"
      using "2.IH" [of e "fst e" "snd e"] e wf(2) by simp
    have 2: "deepest_first (concat (map ?sub xs))" using Cons by simp
    have 3: "\<not> strict_prefix p q" if "p \<in> set (?sub e)" "q \<in> set (concat (map ?sub xs))" for p q
    proof
      assume sp: "strict_prefix p q"
      from that(2) obtain e' where e': "e' \<in> set xs" "q \<in> set (?sub e')" by auto
      have "fst e' \<in> fst ` set xs" using e'(1) by (rule imageI)
      moreover have "fst e \<notin> fst ` set xs" using Cons.prems(2) by simp
      ultimately have "fst e' \<noteq> fst e" by metis
      moreover have "prefix (path_names top_dir @ [fst e]) p" using beneath e that(1) by blast
      moreover have "e' \<in> set es" using e'(1) Cons.prems(1) by auto
      then have "prefix (path_names top_dir @ [fst e']) q"
        using e'(2) by (rule beneath)
      ultimately show False using sp
        by (auto simp: prefix_def strict_prefix_def append_eq_append_conv2 Cons_eq_append_conv)
    qed
    show ?case using 1 2 3 by (simp add: deepest_first_append)
  qed
  have "deepest_first (concat (map ?sub es))" using children [of es] wf(1) by simp
  moreover have "\<not> strict_prefix p (path_names top_dir)" if "p \<in> set (concat (map ?sub es))" for p
  proof -
    from that obtain e where "e \<in> set es" "p \<in> set (?sub e)" by auto
    then have "prefix (path_names top_dir @ [fst e]) p" using beneath by blast
    then show ?thesis by (auto simp: prefix_def strict_prefix_def)
  qed
  ultimately show ?case by (simp add: walk_dirs_Dir deepest_first_append)
qed









lemma entry_at_cleaned_no_create: "entry_at n q = None \<Longrightarrow> entry_at (cleaned n) q = None"
  by (simp add: cleaned_def entry_at_clear_no_create)

lemma entry_at_beneath_non_dir:
  assumes "\<not> is_dir_at n d" "strict_prefix d q"
  shows "entry_at n q = None"
proof (rule ccontr)
  assume "entry_at n q \<noteq> None"
  then obtain x where x: "lookup n q = Some x" by (auto simp: entry_at_def split: option.splits)
  from assms(2) obtain r where "q = d @ r" "r \<noteq> []" by (auto simp: strict_prefix_def prefix_def)
  with x have "is_dir_at n d" using is_dir_at_prefix by blast
  with assms(1) show False by simp
qed

subsection \<open>The Archive Builder on the working root\<close>

lemma alter_success: "alter p f n = Inr n' \<Longrightarrow> p \<noteq> [] \<and> is_dir_at n (butlast p)"
proof (induction p f n arbitrary: n' rule: alter.induct)
  case (1 f n) then show ?case by (simp split: sum.splits)
next
  case (2 c p f b) then show ?case by simp
next
  case (3 c f es) then show ?case by simp
next
  case (4 c d p f es)
  then show ?case by (auto split: option.splits sum.splits)
qed

lemma stat_node_iff:
  assumes "s \<noteq> []" "list_all ordinary (path_names s)"
  shows "stat_node n s = Inr x \<longleftrightarrow>
     lookup n (path_names s) = Some x \<and> (endswith s ''/'' \<longrightarrow> (\<exists>es. x = Dir es))"
proof
  assume a: "stat_node n s = Inr x"
  then obtain p where p: "resolve n s = Inr p" "lookup n p = Some x"
    by (auto simp: stat_node_def split: sum.splits option.splits)
  then have "p = path_names s" using resolve_lexical assms(2) by blast
  moreover have "\<exists>es. x = Dir es" if "endswith s ''/''"
    using resolve_trailing [OF p(1) that] p(2) by (auto simp: is_dir_at_lookup)
  ultimately show "lookup n (path_names s) = Some x \<and> (endswith s ''/'' \<longrightarrow> (\<exists>es. x = Dir es))"
    using p by auto
next
  assume a: "lookup n (path_names s) = Some x \<and> (endswith s ''/'' \<longrightarrow> (\<exists>es. x = Dir es))"
  show "stat_node n s = Inr x"
  proof (cases "endswith s ''/''")
    case True
    then have "is_dir_at n (path_names s)" using a by (auto simp: is_dir_at_lookup)
    then have "resolve n s = Inr (path_names s)" using resolve_dir assms by blast
    then show ?thesis using a by (simp add: stat_node_def)
  next
    case False
    have "path_names s = [] \<or> is_dir_at n (butlast (path_names s))"
      using a parent_is_dir by blast
    then have "resolve n s = Inr (path_names s)" using resolve_entry assms False by blast
    then show ?thesis using a by (simp add: stat_node_def)
  qed
qed

lemma read_file_iff:
  assumes "s \<noteq> []" "list_all ordinary (path_names s)" "\<not> endswith s ''/''"
  shows "read_file s n = Inr b \<longleftrightarrow> lookup n (path_names s) = Some (File b)"
proof -
  have "read_file s n = Inr b \<longleftrightarrow> stat_node n s = Inr (File b)"
    by (auto simp: read_file_def split: sum.splits node.splits)
  then show ?thesis using stat_node_iff [OF assms(1,2)] assms(3) by simp
qed

lemma write_file_success:
  assumes "s \<noteq> []" "list_all ordinary (path_names s)" "write_file s data n = Inr n'"
  shows "n' = put_at (path_names s) (File data) n \<and> path_names s \<noteq> []
     \<and> is_dir_at n (butlast (path_names s)) \<and> \<not> is_dir_at n (path_names s)"
proof -
  from assms(3) obtain p where p: "resolve n s = Inr p" "alter p (write_entry data) n = Inr n'"
    by (auto simp: write_file_def split: sum.splits)
  have pe: "p = path_names s" using resolve_lexical p(1) assms(2) by blast
  have par: "p \<noteq> []" "is_dir_at n (butlast p)" using alter_success [OF p(2)] by auto
  have "\<not> is_dir_at n p \<and> n' = put_at p (File data) n"
  proof (cases "lookup n p")
    case None
    then show ?thesis using p(2) par by (simp add: alter_eq is_dir_at_lookup)
  next
    case (Some x)
    then show ?thesis using p(2) par by (cases x) (simp_all add: alter_eq is_dir_at_lookup)
  qed
  then show ?thesis using pe par by simp
qed

lemma os_remove_success:
  assumes "s \<noteq> []" "list_all ordinary (path_names s)" "os_remove s n = Inr n'"
  shows "n' = remove_at (path_names s) n"
proof -
  from assms(3) obtain p where p: "resolve n s = Inr p" "alter p unlink_entry n = Inr n'"
    by (auto simp: os_remove_def split: sum.splits)
  have pe: "p = path_names s" using resolve_lexical p(1) assms(2) by blast
  have par: "p \<noteq> []" "is_dir_at n (butlast p)" using alter_success [OF p(2)] by auto
  have "n' = remove_at p n"
  proof (cases "lookup n p")
    case None
    then show ?thesis using p(2) par by (simp add: alter_eq)
  next
    case (Some x)
    then show ?thesis using p(2) par by (cases x) (simp_all add: alter_eq)
  qed
  then show ?thesis using pe by simp
qed

lemma path_names_archive:
  "path_names ''/tmp/weekly-archive.tar'' = [''tmp'', ''weekly-archive.tar'']"
  "path_names ''/tmp/weekly-archive.tar.gz'' = [''tmp'', ''weekly-archive.tar.gz'']"
  by (simp_all add: path_names_def)

lemma ordinary_archive:
  "list_all ordinary (path_names ''/tmp/weekly-archive.tar'')"
  "list_all ordinary (path_names ''/tmp/weekly-archive.tar.gz'')"
  by (simp_all add: path_names_archive ordinary_def)

lemma endswith_archive:
  "\<not> endswith ''/tmp/weekly-archive.tar'' ''/''"
  "\<not> endswith ''/tmp/weekly-archive.tar.gz'' ''/''"
  by (simp_all add: endswith_def)

lemma archive_success:
  assumes "fst (create_tar_gz_archive E ''/tmp/s3_files/'' ''/tmp/weekly-archive'' w) = Inr g"
  shows "\<exists>t. lookup (fs w) [''tmp'', ''s3_files''] = Some t
     \<and> g = ''/tmp/weekly-archive.tar.gz''
     \<and> read_file g (fs (snd (create_tar_gz_archive E ''/tmp/s3_files/'' ''/tmp/weekly-archive'' w)))
         = Inr (gzip_stream E ''/tmp/weekly-archive.tar.gz'' (tar_encode E (working_root_members E t)))"
proof -
  let ?tar = "''/tmp/weekly-archive.tar''" and ?gz = "''/tmp/weekly-archive.tar.gz''"
  let ?src = "''/tmp/s3_files/''"
  let ?pt = "[''tmp'', ''weekly-archive.tar'']" and ?pg = "[''tmp'', ''weekly-archive.tar.gz'']"
  let ?d = "[''tmp'', ''s3_files'']"
  let ?run = "create_tar_gz_archive E ?src ''/tmp/weekly-archive'' w"
  have names: "''/tmp/weekly-archive'' @ ''.tar'' = ?tar" "''/tmp/weekly-archive'' @ ''.tar.gz'' = ?gz"
    by simp_all
  have notself: "os_path_abspath ?src \<noteq> os_path_abspath ?tar" by code_simp
  from assms obtain fs1 where fs1: "write_file ?tar [] (fs w) = Inr fs1"
    unfolding create_tar_gz_archive_def Let_def names by (auto split: sum.splits)
  from assms fs1 obtain members where
    members: "tar_add E (os_path_abspath ?tar) ?src (os_path_basename ?src) fs1 = Inr members"
    unfolding create_tar_gz_archive_def Let_def names by (auto split: sum.splits)
  from assms fs1 members obtain fs2 where fs2: "write_file ?tar (tar_encode E members) fs1 = Inr fs2"
    unfolding create_tar_gz_archive_def Let_def names by (auto split: sum.splits)
  from assms fs1 members fs2 obtain tar_bytes where tb: "read_file ?tar fs2 = Inr tar_bytes"
    unfolding create_tar_gz_archive_def Let_def names by (auto split: sum.splits)
  from assms fs1 members fs2 tb obtain fs3 where
    fs3: "write_file ?gz (gzip_stream E ?gz tar_bytes) fs2 = Inr fs3"
    unfolding create_tar_gz_archive_def Let_def names by (auto split: sum.splits)
  from assms fs1 members fs2 tb fs3 obtain fs4 where fs4: "os_remove ?tar fs3 = Inr fs4"
    unfolding create_tar_gz_archive_def Let_def names by (auto split: sum.splits)
  have res: "?run = (Inr ?gz, logging (INFO (''Created archive '' @ ?gz)) (w\<lparr>fs := fs4\<rparr>))"
    unfolding create_tar_gz_archive_def Let_def names using fs1 members fs2 tb fs3 fs4 by simp
  have w1: "fs1 = put_at ?pt (File []) (fs w)"
    using write_file_success [OF _ ordinary_archive(1) fs1] by (simp add: path_names_archive)
  obtain t where t: "stat_node fs1 ?src = Inr t" "members = working_root_members E t"
    using members notself
    by (auto simp: tar_add_def working_root_members_def split: sum.splits if_splits)
  have "lookup fs1 ?d = Some t"
    using t(1) stat_node_iff [OF _ ordinary_temp(1), of fs1 t] by (simp add: path_names_temp)
  then have lk: "lookup (fs w) ?d = Some t"
    by (simp add: w1 lookup_put_at_other)
  have w2: "fs2 = put_at ?pt (File (tar_encode E members)) fs1" and par2: "is_dir_at fs1 (butlast ?pt)"
    using write_file_success [OF _ ordinary_archive(1) fs2] by (simp_all add: path_names_archive)
  have "lookup fs2 ?pt = Some (File (tar_encode E members))"
    using lookup_put_at_same [OF par2, of "File (tar_encode E members)" "[]"] by (simp add: w2)
  then have tbe: "tar_bytes = tar_encode E members"
    using tb read_file_iff [OF _ ordinary_archive(1) endswith_archive(1), of fs2 tar_bytes]
    by (simp add: path_names_archive)
  have w3: "fs3 = put_at ?pg (File (gzip_stream E ?gz tar_bytes)) fs2"
    and par3: "is_dir_at fs2 (butlast ?pg)"
    using write_file_success [OF _ ordinary_archive(2) fs3] by (simp_all add: path_names_archive)
  have lk3: "lookup fs3 ?pg = Some (File (gzip_stream E ?gz tar_bytes))"
    using lookup_put_at_same [OF par3, of "File (gzip_stream E ?gz tar_bytes)" "[]"] by (simp add: w3)
  have w4: "fs4 = remove_at ?pt fs3"
    using os_remove_success [OF _ ordinary_archive(1) fs4] by (simp add: path_names_archive)
  have "lookup fs4 ?pg = Some (File (gzip_stream E ?gz tar_bytes))"
    using lk3 by (simp add: w4 lookup_remove_at_other)
  then have "read_file ?gz fs4 = Inr (gzip_stream E ?gz tar_bytes)"
    using read_file_iff [OF _ ordinary_archive(2) endswith_archive(2), of fs4] by (simp add: path_names_archive)
  then show ?thesis
    using lk res assms tbe t(2) by (simp add: logging_def)
qed

subsection \<open>The Selective Mirror keeps and adds files\<close>

lemma entry_at_append_None: "lookup n q = None \<Longrightarrow> entry_at n (q @ r) = None"
  by (simp add: entry_at_def lookup_append)

lemma entry_at_beneath_file:
  assumes "\<not> is_dir_at n q" "r \<noteq> []"
  shows "entry_at n (q @ r) = None"
  using assms entry_at_beneath_non_dir [of n q "q @ r"] by (simp add: strict_prefix_def)

lemma mkdir_keeps_files:
  assumes "lookup n q = None" "is_dir_at n (butlast q)" "q \<noteq> []"
  shows "is_file_with (put_at q (Dir []) n) p b \<longleftrightarrow> is_file_with n p b"
proof (cases "prefix q p")
  case True
  then obtain r where r: "p = q @ r" by (auto simp: prefix_def)
  have "entry_at n p = None" using assms(1) r by (simp add: entry_at_append_None)
  moreover have "lookup (put_at q (Dir []) n) (q @ r) = lookup (Dir []) r"
    using assms(2,3) by (simp add: lookup_put_at_same)
  then have "entry_at (put_at q (Dir []) n) p \<noteq> Some (RegularFile b)"
    by (cases r) (simp_all add: entry_at_def r)
  ultimately show ?thesis by (simp add: is_file_with_def)
next
  case False
  then show ?thesis by (simp add: is_file_with_def entry_at_put_at)
qed

lemma makedirs_walk_keeps_files:
  "makedirs_walk n cur cs = (r, n') \<Longrightarrow> is_file_with n' p b \<longleftrightarrow> is_file_with n p b"
proof (induction n cur cs arbitrary: r n' rule: makedirs_walk.induct)
  case (1 root_dir cur) then show ?case by simp
next
  case (2 root_dir cur c cs)
  show ?case
  proof (cases "lookup root_dir cur")
    case None then show ?thesis using "2.prems" by simp
  next
    case (Some x)
    show ?thesis
    proof (cases x)
      case (File b') then show ?thesis using "2.prems" Some by simp
    next
      case (Dir es)
      show ?thesis
      proof (cases "c = ''.''")
        case True
        then show ?thesis using "2.prems" "2.IH"(1) [OF Some Dir True] Some Dir by simp
      next
        case nd: False
        show ?thesis
        proof (cases "c = ''..''")
          case True
          then show ?thesis using "2.prems" "2.IH"(2) [OF Some Dir nd True] Some Dir nd by simp
        next
          case ndd: False
          show ?thesis
          proof (cases "lookup root_dir (cur @ [c])")
            case None
            show ?thesis
            proof (cases "alter (cur @ [c]) mkdir_entry root_dir")
              case (Inl e) then show ?thesis using "2.prems" Some Dir nd ndd None by simp
            next
              case (Inr m)
              have par: "is_dir_at root_dir (butlast (cur @ [c]))"
                using Some Dir by (simp add: is_dir_at_lookup)
              then have m: "m = put_at (cur @ [c]) (Dir []) root_dir"
                using Inr None by (simp add: alter_eq)
              have "makedirs_walk m (cur @ [c]) cs = (r, n')"
                using "2.prems" Some Dir nd ndd None Inr by simp
              then have "is_file_with n' p b \<longleftrightarrow> is_file_with m p b"
                using "2.IH"(3) [OF Some Dir nd ndd None Inr] by simp
              then show ?thesis using m mkdir_keeps_files [OF None par] by simp
            qed
          next
            case y: (Some y)
            show ?thesis
            proof (cases y)
              case (File b'') then show ?thesis using "2.prems" Some Dir nd ndd y by simp
            next
              case d2: (Dir es')
              then show ?thesis
                using "2.prems" Some Dir nd ndd y "2.IH"(4) [OF Some Dir nd ndd y d2] by simp
            qed
          qed
        qed
      qed
    qed
  qed
qed

lemma os_makedirs_keeps_files:
  "os_makedirs s n = (r, n') \<Longrightarrow> is_file_with n' p b \<longleftrightarrow> is_file_with n p b"
  by (auto simp: os_makedirs_def split: if_splits dest: makedirs_walk_keeps_files)

lemma write_file_files:
  assumes "write_file s data n = Inr n'"
  shows "is_file_with n' q b \<longleftrightarrow>
     (if q = lexical [] (path_components s) then b = data else is_file_with n q b)"
proof -
  let ?p = "lexical [] (path_components s)"
  from assms obtain p0 where p0: "resolve n s = Inr p0" "alter p0 (write_entry data) n = Inr n'"
    by (auto simp: write_file_def split: sum.splits)
  have "p0 = ?p"
    using p0(1) by (auto simp: resolve_def split: if_splits dest: walk_path_lexical)
  with p0(2) have alt: "alter ?p (write_entry data) n = Inr n'" by simp
  have par: "?p \<noteq> []" "is_dir_at n (butlast ?p)" using alter_success [OF alt] by auto
  have nd: "\<not> is_dir_at n ?p" and n': "n' = put_at ?p (File data) n"
  proof -
    show "\<not> is_dir_at n ?p"
    proof (cases "lookup n ?p")
      case None
      then show ?thesis by (simp add: is_dir_at_lookup)
    next
      case (Some x)
      then show ?thesis using alt par by (cases x) (simp_all add: alter_eq is_dir_at_lookup)
    qed
    show "n' = put_at ?p (File data) n"
    proof (cases "lookup n ?p")
      case None
      then show ?thesis using alt par by (simp add: alter_eq)
    next
      case (Some x)
      then show ?thesis using alt par by (cases x) (simp_all add: alter_eq)
    qed
  qed
  show ?thesis
  proof (cases "prefix ?p q")
    case True
    then obtain r where r: "q = ?p @ r" by (auto simp: prefix_def)
    have lk: "lookup n' (?p @ r) = lookup (File data) r"
      unfolding n' by (rule lookup_put_at_same [OF par(2) par(1)])
    show ?thesis
    proof (cases r)
      case Nil
      then have "q = ?p" "lookup n' q = Some (File data)" using lk r by simp_all
      then show ?thesis by (auto simp: is_file_with_def entry_at_def)
    next
      case (Cons x xs)
      then have "lookup n' q = None" using lk r by simp
      then have 1: "entry_at n' q = None" by (simp add: entry_at_def)
      have 2: "entry_at n q = None"
        unfolding r by (rule entry_at_beneath_file [OF nd]) (simp add: Cons)
      have "q \<noteq> ?p" using r Cons by simp
      then show ?thesis using 1 2 by (simp add: is_file_with_def)
    qed
  next
    case False
    then have ne: "q \<noteq> ?p" by auto
    have "entry_at n' q = entry_at n q" unfolding n' using False by (rule entry_at_put_at)
    then show ?thesis using ne by (simp add: is_file_with_def)
  qed
qed

lemma mirrored_by_Nil [simp]: "mirrored_by place R [] q = None"
  by (simp add: mirrored_by_def)

lemma mirrored_by_Cons:
  "mirrored_by place R (x # xs) q =
     (case mirrored_by place R xs q of
        Some d \<Rightarrow> Some d
      | None \<Rightarrow> if \<not> ignored R (fst x) \<and> place (fst x) = q then Some (obj_body (snd x)) else None)"
  by (auto simp: mirrored_by_def map_add_def split: option.splits)

lemma download_one_files:
  assumes "download_one E ''/tmp/s3_files/'' R x w = (None, w')"
  shows "is_file_with (fs w') q b \<longleftrightarrow>
     (if \<not> ignored R (fst x) \<and> q = target (fst x) then b = obj_body (snd x)
      else is_file_with (fs w) q b)"
proof (cases "ignored R (fst x)")
  case True
  then show ?thesis using assms by (auto simp: download_one_def logging_def split: prod.splits)
next
  case False
  obtain k c where x: "x = (k, c)" by (cases x)
  let ?path = "os_path_join ''/tmp/s3_files/'' k"
  from assms False x obtain n1 where n1: "os_makedirs (os_path_dirname ?path) (fs w) = (None, n1)"
    by (auto simp: download_one_def Let_def split: prod.splits option.splits sum.splits)
  from assms False x n1 obtain n2 where
    n2: "download_file E k (obj_body c) ?path n1 = Inr n2" "fs w' = n2"
    by (auto simp: download_one_def Let_def logging_def split: prod.splits option.splits sum.splits)
  from n2(1) have wr: "write_file ?path (obj_body c) n1 = Inr n2"
    by (auto simp: download_file_def split: option.splits)
  have "is_file_with n2 q b \<longleftrightarrow> (if q = target k then b = obj_body c else is_file_with n1 q b)"
    using write_file_files [OF wr] by (simp add: target_def)
  moreover have "is_file_with n1 q b \<longleftrightarrow> is_file_with (fs w) q b"
    using n1 by (rule os_makedirs_keeps_files)
  ultimately show ?thesis using False x n2(2) by simp
qed

lemma for_each_Cons_success:
  "for_each f (x # xs) s = (None, s') \<Longrightarrow> \<exists>s1. f x s = (None, s1) \<and> for_each f xs s1 = (None, s')"
  by (auto split: prod.splits option.splits)

lemma download_loop_files:
  "for_each (download_one E ''/tmp/s3_files/'' R) objs w = (None, w') \<Longrightarrow>
   is_file_with (fs w') q b \<longleftrightarrow>
     (case mirrored_by target R objs q of Some d \<Rightarrow> b = d | None \<Rightarrow> is_file_with (fs w) q b)"
proof (induction objs arbitrary: w)
  case Nil then show ?case by simp
next
  case (Cons x xs)
  from for_each_Cons_success [OF Cons.prems] obtain w1 where
    w1: "download_one E ''/tmp/s3_files/'' R x w = (None, w1)"
        "for_each (download_one E ''/tmp/s3_files/'' R) xs w1 = (None, w')"
    by blast
  show ?case
    using Cons.IH [OF w1(2)] download_one_files [OF w1(1), of q b]
    by (auto simp: mirrored_by_Cons split: option.splits)
qed

lemma download_files_success:
  assumes "fst (download_files E R w) = Inr d"
  shows "d = ''/tmp/s3_files/''
    \<and> (is_file_with (fs (snd (download_files E R w))) q b \<longleftrightarrow>
        (case mirrored_by target R (bucket w) q of
           Some data \<Rightarrow> b = data | None \<Rightarrow> is_file_with (fs w) q b))
    \<and> bucket (snd (download_files E R w)) = bucket w"
proof -
  from assms obtain n1 where n1: "os_makedirs ''/tmp/s3_files/'' (fs w) = (None, n1)"
    by (auto simp: download_files_def Let_def split: prod.splits option.splits)
  from assms n1 obtain w' where
    w': "for_each (download_one E ''/tmp/s3_files/'' R) (bucket w) (w\<lparr>fs := n1\<rparr>) = (None, w')"
        "download_files E R w = (Inr ''/tmp/s3_files/'', w')"
    by (auto simp: download_files_def Let_def split: prod.splits option.splits)
  have keep: "is_file_with n1 q b \<longleftrightarrow> is_file_with (fs w) q b"
    using n1 by (rule os_makedirs_keeps_files)
  have b: "bucket w' = bucket w0" if "for_each (download_one E ''/tmp/s3_files/'' R) objs w0 = (None, w')"
    for objs w0
    using that
  proof (induction objs arbitrary: w0)
    case Nil then show ?case by simp
  next
    case (Cons x xs)
    from for_each_Cons_success [OF Cons.prems] obtain w1 where
      w1: "download_one E ''/tmp/s3_files/'' R x w0 = (None, w1)"
          "for_each (download_one E ''/tmp/s3_files/'' R) xs w1 = (None, w')"
      by blast
    have "bucket w1 = bucket w0"
      using w1(1)
      by (auto simp: download_one_def Let_def logging_def split: prod.splits option.splits sum.splits if_splits)
    then show ?case using Cons.IH [OF w1(2)] by simp
  qed
  show ?thesis
    using download_loop_files [OF w'(1), of q b] keep w'(2) assms b [OF w'(1)]
    by (auto split: option.splits)
qed

lemma lexical_no_dotdot:
  "''..'' \<notin> set cs \<Longrightarrow> lexical cur cs = cur @ filter (\<lambda>c. c \<noteq> ''.'') cs"
  by (induction cs arbitrary: cur) auto

lemma target_safe_key:
  assumes "safe_key key"
  shows "target key = local_path key"
proof -
  have j: "os_path_join ''/tmp/s3_files/'' key = ''/tmp/s3_files'' @ CHR ''/'' # key"
    using assms by (simp add: safe_key_def os_path_join_def endswith_def)
  have pn: "path_names (os_path_join ''/tmp/s3_files/'' key) = [''tmp'', ''s3_files''] @ path_names key"
    unfolding j path_names_append by (simp add: path_names_def)
  have "''..'' \<notin> set (path_components (os_path_join ''/tmp/s3_files/'' key))"
    using assms by (auto simp: path_components_def pn safe_key_def)
  then show ?thesis
    by (simp add: target_def lexical_no_dotdot local_path_def)
       (simp add: path_components_def pn)
qed

lemma mirrored_by_cong:
  assumes "\<forall>obj \<in> set objs. \<not> ignored R (fst obj) \<longrightarrow> f (fst obj) = g (fst obj)"
  shows "mirrored_by f R objs q = mirrored_by g R objs q"
proof -
  have "map (\<lambda>obj. (f (fst obj), obj_body (snd obj))) (filter (\<lambda>obj. \<not> ignored R (fst obj)) objs)
      = map (\<lambda>obj. (g (fst obj), obj_body (snd obj))) (filter (\<lambda>obj. \<not> ignored R (fst obj)) objs)"
    using assms by (intro map_cong) auto
  then show ?thesis
    unfolding mirrored_by_def by (rule arg_cong [where f = "\<lambda>l. map_of (rev l) q"])
qed

subsection \<open>Every stage keeps the file system well-formed\<close>
















subsection \<open>The stages of \<^verbatim>\<open>main\<close>\<close>

lemma fs_logging [simp]: "fs (logging l w) = fs w"
  by (simp add: logging_def)

lemma bucket_logging [simp]: "bucket (logging l w) = bucket w"
  by (simp add: logging_def)

lemma console_logging [simp]: "console (logging l w) = console w @ [l]"
  by (simp add: logging_def)








subsection \<open>The state after the cleanup and the order of its removals\<close>











lemma walk_targets_File [simp]: "walk_targets top_dir (File b) = []"
  by (simp add: walk_targets_def)






section \<open>The claims\<close>

subsection \<open>Savings Reporter\<close>

text \<open>
  C3. With an original size of 0 the function raises \<open>ZeroDivisionError\<close>, whatever the
  compressed size is: it returns no pair at all, in particular at \<open>(0, 0)\<close>.
\<close>

theorem C3_zero_original_raises:
  "calculate_size_savings 0 compressed_size = Inl ZeroDivisionError
   \<and> calculate_size_savings 0 0 = Inl ZeroDivisionError"
  by (simp add: calculate_size_savings_def int_true_divide_def)

text \<open>
  C7 (as the code has it). For sizes below \<open>2 ^ 1000\<close>, the original size positive and
  the compressed size not negative, the function returns the pair of the absolute
  savings, an integer, and a finite float \<open>p\<close>: the quotient of the savings by the
  original size rounded to a double \<open>q\<close> (relative error at most \<open>2 ^ -53\<close>), and the
  product \<open>q * 100\<close> rounded to a double again. So \<open>p\<close> is the percentage of the original
  size saved up to a relative error of \<open>2 ^ -51\<close>, not the exact percentage. At
  \<open>(1000, 250)\<close> both roundings are exact and the pair is \<open>(750, 75.0)\<close>.
\<close>

theorem C7_savings_pair:
  assumes "0 < original_size" "0 \<le> compressed_size"
    and "original_size < 2 ^ 1000" "compressed_size < 2 ^ 1000"
  shows "\<exists>q p. int_true_divide (original_size - compressed_size) original_size = Inr (Finite q)
    \<and> calculate_size_savings original_size compressed_size
        = Inr (original_size - compressed_size, Finite p)
    \<and> \<bar>q - of_int (original_size - compressed_size) / of_int original_size\<bar>
        \<le> \<bar>of_int (original_size - compressed_size) / of_int original_size\<bar> / 2 ^ 53
    \<and> \<bar>p - q * 100\<bar> \<le> \<bar>q * 100\<bar> / 2 ^ 53
    \<and> \<bar>p - of_int (original_size - compressed_size) / of_int original_size * 100\<bar>
        \<le> \<bar>of_int (original_size - compressed_size) / of_int original_size * 100\<bar> / 2 ^ 51"
proof (cases "original_size - compressed_size = 0")
  case True
  have "int_true_divide 0 original_size = Inr (Finite 0)"
    using assms(1) by (simp add: int_true_divide_def round_double_0 signed_float_def)
  moreover have "float_mul (Finite 0) (Finite 100) = Finite 0"
    by (simp add: float_mul_def round_double_0 signed_float_def)
  ultimately show ?thesis
    using True by (simp add: calculate_size_savings_def)
next
  case False
  define s where "s = original_size - compressed_size"
  define x :: rat where "x = \<bar>of_int s\<bar> / of_int original_size"
  have s0: "s \<noteq> 0" using False by (simp add: s_def)
  have o: "(0::rat) < of_int original_size" using assms(1) by simp
  have "1 \<le> \<bar>s\<bar>" using s0 by linarith
  then have "(of_int 1 :: rat) \<le> of_int \<bar>s\<bar>" by (simp only: of_int_le_iff)
  then have s1: "(1::rat) \<le> \<bar>of_int s\<bar>" by simp
  have xpos: "0 < x" using s1 o by (simp add: x_def)
  have "(of_int original_size :: rat) < of_int (2 ^ 1000)"
    using assms(3) by (simp only: of_int_less_iff)
  then have ob: "(of_int original_size :: rat) < 2 powi 1000" by (simp only: of_int_two_power) simp
  have "\<bar>s\<bar> < 2 ^ 1000" using assms by (simp add: s_def abs_less_iff)
  then have "(of_int \<bar>s\<bar> :: rat) < of_int (2 ^ 1000)" by (simp only: of_int_less_iff)
  then have sb: "\<bar>of_int s :: rat\<bar> < 2 powi 1000" by (simp only: of_int_two_power of_int_abs) simp
  have lo: "2 powi (- 1000) \<le> x"
  proof -
    have "(2::rat) powi (- 1000) = 1 / 2 powi 1000" by (simp only: power_int_minus_divide)
    also have "\<dots> \<le> 1 / of_int original_size" using ob o by (simp add: frac_le)
    also have "\<dots> \<le> x" using s1 o by (simp add: x_def divide_right_mono)
    finally show ?thesis .
  qed
  have hi: "x < 2 powi 1000"
  proof -
    have "(1::rat) \<le> of_int original_size" using assms(1) by simp
    then have "\<bar>of_int s :: rat\<bar> / of_int original_size \<le> \<bar>of_int s\<bar> / 1"
      by (intro frac_le) simp_all
    then have "x \<le> \<bar>of_int s\<bar>" by (simp add: x_def)
    then show ?thesis using sb by linarith
  qed
  obtain r p where rp: "round_double x = Some r" "round_double (r * 100) = Some p"
      "0 < r" "0 < p" "\<bar>r - x\<bar> \<le> x / 2 ^ 53" "\<bar>p - r * 100\<bar> \<le> r * 100 / 2 ^ 53"
      "\<bar>p - x * 100\<bar> \<le> x * 100 / 2 ^ 51"
    using savings_in_range [OF xpos lo hi] by blast
  define sg :: rat where "sg = (if s < 0 then - 1 else 1)"
  have sg: "sg = 1 \<or> sg = - 1" "\<bar>sg\<bar> = 1" by (simp_all add: sg_def)
  have exact: "of_int s / of_int original_size = sg * x"
    using o by (simp add: sg_def x_def abs_if)
  have d: "int_true_divide s original_size = Inr (Finite (sg * r))"
    using assms(1) rp(1,3) by (simp add: int_true_divide_def x_def signed_float_def sg_def)
  have m: "float_mul (Finite (sg * r)) (Finite 100) = Finite (sg * p)"
    using rp(2,3,4) by (auto simp: float_mul_def signed_float_def sg_def)
  have c: "calculate_size_savings original_size compressed_size = Inr (s, Finite (sg * p))"
    using d m by (simp add: calculate_size_savings_def s_def Let_def)
  have e1: "\<bar>sg * r - sg * x\<bar> \<le> \<bar>sg * x\<bar> / 2 ^ 53"
    using rp(5) xpos sg(2) by (simp add: abs_mult flip: right_diff_distrib)
  have e2: "\<bar>sg * p - sg * r * 100\<bar> \<le> \<bar>sg * r * 100\<bar> / 2 ^ 53"
    using rp(6) rp(3) sg(2) abs_mult [of sg "p - r * 100"] abs_mult [of sg "r * 100"]
    by (simp add: right_diff_distrib mult.assoc)
  have e3: "\<bar>sg * p - sg * x * 100\<bar> \<le> \<bar>sg * x * 100\<bar> / 2 ^ 51"
    using rp(7) xpos sg(2) abs_mult [of sg "p - x * 100"] abs_mult [of sg "x * 100"]
    by (simp add: right_diff_distrib mult.assoc)
  show ?thesis
    using d c e1 e2 e3 unfolding exact s_def [symmetric] by blast
qed

theorem C7_savings_pair_witness:
  "(0::int) < 1000 \<and> (0::int) \<le> 250 \<and> (1000::int) < 2 ^ 1000 \<and> (250::int) < 2 ^ 1000
   \<and> calculate_size_savings 1000 250 = Inr (750, Finite 75)
   \<and> \<bar>(75::rat) - of_int (1000 - 250) / of_int 1000 * 100\<bar>
       \<le> \<bar>of_int (1000 - 250) / of_int 1000 * 100\<bar> / 2 ^ 51"
proof -
  have c: "calculate_size_savings 1000 250 = Inr (750, Finite 75)" by code_simp
  have b: "(1000::int) < 2 ^ 1000" "(250::int) < 2 ^ 1000" by simp_all
  obtain p where "calculate_size_savings 1000 250 = Inr (1000 - 250, Finite p)"
    "\<bar>p - of_int (1000 - 250) / of_int 1000 * 100\<bar>
       \<le> \<bar>of_int (1000 - 250) / of_int 1000 * 100\<bar> / 2 ^ 51"
    using C7_savings_pair [of 1000 250, OF _ _ b] by auto
  then show ?thesis using c b by simp
qed

text \<open>
  C7 as stated fails twice. For an original size of 1 and a compressed size of
  \<open>2 ^ 1024 + 1\<close>, both non-negative integers, the division raises \<open>OverflowError\<close> and no
  pair is returned. At \<open>(3, 1)\<close> the pair is returned, but its float
  \<open>66.66666666666666\<close> is not \<open>(3 - 1) / 3 * 100\<close>.
\<close>

theorem C7_overflow_and_rounding_counterexample:
  "calculate_size_savings 1 (2 ^ 1024 + 1) = Inl OverflowError
   \<and> calculate_size_savings 3 1 = Inr (2, Finite (2345624805922133 / 35184372088832))
   \<and> (2345624805922133 / 35184372088832 :: rat) \<noteq> of_int (3 - 1) / of_int 3 * 100"
proof -
  have "round_double (2 powi 1024) = None" by (rule round_double_overflow) simp
  then have 1: "calculate_size_savings 1 (2 ^ 1024 + 1) = Inl OverflowError"
    by (simp add: calculate_size_savings_def int_true_divide_def)
  have 2: "calculate_size_savings 3 1 = Inr (2, Finite (2345624805922133 / 35184372088832))"
    by code_simp
  show ?thesis using 1 2 by simp
qed

subsection \<open>Run Finalizer\<close>



text \<open>
  C8 as stated fails for a regular file at \<^verbatim>\<open>/tmp/s3_files\<close>: the cleanup returns and the
  file is still there, a residue at the place of the working root.
\<close>

theorem C8_file_at_working_root_counterexample:
  "fst (cleanup_local_resources file_at_root_world) = Inr ()
   \<and> entry_at (fs file_at_root_world) [''tmp'', ''s3_files''] = Some (RegularFile [7])
   \<and> entry_at (fs (snd (cleanup_local_resources file_at_root_world))) [''tmp'', ''s3_files'']
       = Some (RegularFile [7])
   \<and> \<not> os_path_isdir (fs file_at_root_world) ''/tmp/s3_files/''
   \<and> \<not> os_path_isfile (fs file_at_root_world) ''/tmp/s3_files/''
   \<and> os_path_isfile (fs file_at_root_world) ''/tmp/s3_files''"
  by code_simp



text \<open>
  C10 as stated fails when a directory is found at the archive path: the file
  \<^verbatim>\<open>/tmp/weekly-archive.tar.gz/keep.txt\<close> is none of the three managed paths and not
  beneath the working root, and the cleanup removes it.
\<close>

theorem C10_directory_at_archive_path_counterexample:
  "entry_at (fs dir_at_archive_world) [''tmp'', ''weekly-archive.tar.gz'', ''keep.txt'']
     = Some (RegularFile [7])
   \<and> fst (cleanup_local_resources dir_at_archive_world) = Inr ()
   \<and> entry_at (fs (snd (cleanup_local_resources dir_at_archive_world)))
        [''tmp'', ''weekly-archive.tar.gz'', ''keep.txt'']
     = None
   \<and> [''tmp'', ''weekly-archive.tar.gz'', ''keep.txt''] \<notin> set (map path_names temp_paths)
   \<and> \<not> prefix (path_names ''/tmp/s3_files/'') [''tmp'', ''weekly-archive.tar.gz'', ''keep.txt'']"
  by code_simp

subsection \<open>Archive Builder\<close>

text \<open>
  C1. The claim asks for member paths prefixed by the source directory's own name. The
  call \<^verbatim>\<open>main\<close> makes passes the working root with its trailing separator, whose
  \<^verbatim>\<open>os.path.basename\<close> is empty: the archive of a working root holding \<^verbatim>\<open>a.txt\<close> has a
  member with the empty name and the member \<^verbatim>\<open>a.txt\<close>, not \<^verbatim>\<open>s3_files/a.txt\<close>. The same
  tree passed as \<^verbatim>\<open>/tmp/s3_files\<close> gets the members \<^verbatim>\<open>s3_files\<close> and \<^verbatim>\<open>s3_files/a.txt\<close>.
\<close>

theorem C1_archive_of_working_root_has_no_prefix:
  "os_path_basename ''/tmp/s3_files/'' = []
   \<and> fst (create_tar_gz_archive E ''/tmp/s3_files/'' ''/tmp/weekly-archive'' (world_of mirrored_fs))
       = Inr ''/tmp/weekly-archive.tar.gz''
   \<and> read_file ''/tmp/weekly-archive.tar.gz''
         (fs (snd (create_tar_gz_archive E ''/tmp/s3_files/'' ''/tmp/weekly-archive''
                     (world_of mirrored_fs))))
       = Inr (gzip_stream E ''/tmp/weekly-archive.tar.gz''
                (tar_encode E
                   [\<lparr>tm_name = [], tm_isdir = True,
                      tm_attrs = lstat_attrs E ''/tmp/s3_files/'', tm_data = []\<rparr>,
                    \<lparr>tm_name = ''a.txt'', tm_isdir = False,
                      tm_attrs = lstat_attrs E ''/tmp/s3_files/a.txt'', tm_data = [1, 2]\<rparr>]))
   \<and> map tm_name (tar_add_node (os_path_abspath ''/tmp/weekly-archive.tar'') (lstat_attrs E)
                      ''/tmp/s3_files'' (os_path_basename ''/tmp/s3_files'')
                      (Dir [(''a.txt'', File [1, 2])]))
       = [''s3_files'', ''s3_files/a.txt'']"
  by code_simp

text \<open>
  C2, amended. Two builds of the working root produce byte-identical compressed files
  when the two file systems hold the same tree at the working root (they may differ
  elsewhere), the byte formats and the metadata \<^verbatim>\<open>lstat\<close> reports are the same, and the
  clock reads the same second when the compressed file is opened.
\<close>

theorem C2_same_tree_same_clock_same_bytes:
  assumes "time_time E1 = time_time E2" "lstat_attrs E1 = lstat_attrs E2"
    and "tar_encode E1 = tar_encode E2" "deflate E1 = deflate E2" "crc32 E1 = crc32 E2"
    and "lookup (fs w1) [''tmp'', ''s3_files''] = lookup (fs w2) [''tmp'', ''s3_files'']"
    and "fst (create_tar_gz_archive E1 ''/tmp/s3_files/'' ''/tmp/weekly-archive'' w1) = Inr g1"
    and "fst (create_tar_gz_archive E2 ''/tmp/s3_files/'' ''/tmp/weekly-archive'' w2) = Inr g2"
  shows "g1 = g2
    \<and> read_file g1 (fs (snd (create_tar_gz_archive E1 ''/tmp/s3_files/'' ''/tmp/weekly-archive'' w1)))
      = read_file g2 (fs (snd (create_tar_gz_archive E2 ''/tmp/s3_files/'' ''/tmp/weekly-archive'' w2)))
    \<and> (\<exists>data. read_file g1
          (fs (snd (create_tar_gz_archive E1 ''/tmp/s3_files/'' ''/tmp/weekly-archive'' w1)))
        = Inr data)"
proof -
  from archive_success [OF assms(7)] obtain t1 where
    1: "lookup (fs w1) [''tmp'', ''s3_files''] = Some t1" "g1 = ''/tmp/weekly-archive.tar.gz''"
       "read_file g1 (fs (snd (create_tar_gz_archive E1 ''/tmp/s3_files/'' ''/tmp/weekly-archive'' w1)))
         = Inr (gzip_stream E1 ''/tmp/weekly-archive.tar.gz'' (tar_encode E1 (working_root_members E1 t1)))"
    by blast
  from archive_success [OF assms(8)] obtain t2 where
    2: "lookup (fs w2) [''tmp'', ''s3_files''] = Some t2" "g2 = ''/tmp/weekly-archive.tar.gz''"
       "read_file g2 (fs (snd (create_tar_gz_archive E2 ''/tmp/s3_files/'' ''/tmp/weekly-archive'' w2)))
         = Inr (gzip_stream E2 ''/tmp/weekly-archive.tar.gz'' (tar_encode E2 (working_root_members E2 t2)))"
    by blast
  have "t1 = t2" using 1(1) 2(1) assms(6) by simp
  moreover have "gzip_stream E1 f d = gzip_stream E2 f d" for f d
    using assms(1,4,5) by (simp add: gzip_stream_def gzip_header_def)
  ultimately show ?thesis
    using 1 2 assms(2,3) by (simp add: working_root_members_def)
qed

theorem C2_same_tree_same_clock_same_bytes_witness:
  "lookup (fs (world_of mirrored_fs)) [''tmp'', ''s3_files'']
     = lookup (fs (world_of (Dir [(''tmp'', Dir [(''s3_files'', Dir [(''a.txt'', File [1, 2])]),
                                                  (''other'', File [7])])])))
         [''tmp'', ''s3_files'']
   \<and> fst (create_tar_gz_archive example_env ''/tmp/s3_files/'' ''/tmp/weekly-archive''
            (world_of mirrored_fs)) = Inr ''/tmp/weekly-archive.tar.gz''
   \<and> fst (create_tar_gz_archive example_env ''/tmp/s3_files/'' ''/tmp/weekly-archive''
            (world_of (Dir [(''tmp'', Dir [(''s3_files'', Dir [(''a.txt'', File [1, 2])]),
                                         (''other'', File [7])])])))
       = Inr ''/tmp/weekly-archive.tar.gz''
   \<and> read_file ''/tmp/weekly-archive.tar.gz''
        (fs (snd (create_tar_gz_archive example_env ''/tmp/s3_files/'' ''/tmp/weekly-archive''
                    (world_of mirrored_fs))))
     = read_file ''/tmp/weekly-archive.tar.gz''
        (fs (snd (create_tar_gz_archive example_env ''/tmp/s3_files/'' ''/tmp/weekly-archive''
                    (world_of (Dir [(''tmp'', Dir [(''s3_files'', Dir [(''a.txt'', File [1, 2])]),
                                                 (''other'', File [7])])])))))"
proof -
  let ?w2 = "world_of (Dir [(''tmp'', Dir [(''s3_files'', Dir [(''a.txt'', File [1, 2])]),
                                          (''other'', File [7])])])"
  have same: "lookup (fs (world_of mirrored_fs)) [''tmp'', ''s3_files'']
      = lookup (fs ?w2) [''tmp'', ''s3_files'']"
    by (simp add: world_of_def mirrored_fs_def)
  have g1: "fst (create_tar_gz_archive example_env ''/tmp/s3_files/'' ''/tmp/weekly-archive''
            (world_of mirrored_fs)) = Inr ''/tmp/weekly-archive.tar.gz''"
    by code_simp
  have g2: "fst (create_tar_gz_archive example_env ''/tmp/s3_files/'' ''/tmp/weekly-archive'' ?w2)
      = Inr ''/tmp/weekly-archive.tar.gz''"
    by code_simp
  show ?thesis
    using C2_same_tree_same_clock_same_bytes [OF refl refl refl refl refl same g1 g2] same g1 g2
    by simp
qed

text \<open>
  C2 as stated fails: the gzip header stores the time of writing, so two builds of one
  and the same file system at different seconds differ (in bytes 4 to 7), whatever the
  byte formats are.
\<close>

theorem C2_clock_in_header_counterexample:
  "\<forall>E. read_file ''/tmp/weekly-archive.tar.gz''
          (fs (snd (create_tar_gz_archive (E\<lparr>time_time := 1700000000\<rparr>) ''/tmp/s3_files/''
                      ''/tmp/weekly-archive'' (world_of mirrored_fs))))
      \<noteq> read_file ''/tmp/weekly-archive.tar.gz''
          (fs (snd (create_tar_gz_archive (E\<lparr>time_time := 1700000001\<rparr>) ''/tmp/s3_files/''
                      ''/tmp/weekly-archive'' (world_of mirrored_fs))))"
proof
  fix E :: env
  have r: "read_file ''/tmp/weekly-archive.tar.gz''
          (fs (snd (create_tar_gz_archive E' ''/tmp/s3_files/'' ''/tmp/weekly-archive''
                      (world_of mirrored_fs))))
      = Inr (gzip_stream E' ''/tmp/weekly-archive.tar.gz''
                (tar_encode E' (working_root_members E' (Dir [(''a.txt'', File [1, 2])]))))" for E'
    by code_simp
  have h: "gzip_header E' ''/tmp/weekly-archive.tar.gz''
      = [0x1f, 0x8b, 8, 8] @ write32u (time_time E') @ [2, 255] @ encode_latin1 ''weekly-archive.tar'' @ [0]" for E'
    by (simp add: gzip_header_def os_path_basename_def endswith_def)
  have "write32u (1700000000 :: 32 word) \<noteq> write32u 1700000001"
    by (simp add: write32u_def)
  then show "read_file ''/tmp/weekly-archive.tar.gz''
          (fs (snd (create_tar_gz_archive (E\<lparr>time_time := 1700000000\<rparr>) ''/tmp/s3_files/''
                      ''/tmp/weekly-archive'' (world_of mirrored_fs))))
      \<noteq> read_file ''/tmp/weekly-archive.tar.gz''
          (fs (snd (create_tar_gz_archive (E\<lparr>time_time := 1700000001\<rparr>) ''/tmp/s3_files/''
                      ''/tmp/weekly-archive'' (world_of mirrored_fs))))"
    by (simp add: r gzip_stream_def h write32u_def)
qed

text \<open>
  C5. The intermediate \<^verbatim>\<open>.tar\<close> file is removed on the success path only. When
  \<^verbatim>\<open>tar.add\<close> raises (the source directory is missing) or \<^verbatim>\<open>gzip.open\<close> raises (the
  path of the compressed file is a directory), the function propagates the error and
  the file stays; the script's handler does not remove it either, its list of temporary
  paths does not name it.
\<close>

theorem C5_intermediate_tar_left_on_failure:
  "fst (create_tar_gz_archive E ''/tmp/s3_files/'' ''/tmp/weekly-archive''
          (world_of (Dir [(''tmp'', Dir [])])))
     = Inl FileNotFoundError
   \<and> os_path_isfile
        (fs (snd (create_tar_gz_archive E ''/tmp/s3_files/'' ''/tmp/weekly-archive''
                    (world_of (Dir [(''tmp'', Dir [])])))))
        ''/tmp/weekly-archive.tar''
   \<and> fst (create_tar_gz_archive E ''/tmp/s3_files/'' ''/tmp/weekly-archive'' (world_of blocked_fs))
     = Inl IsADirectoryError
   \<and> os_path_isfile
        (fs (snd (create_tar_gz_archive E ''/tmp/s3_files/'' ''/tmp/weekly-archive''
                    (world_of blocked_fs))))
        ''/tmp/weekly-archive.tar''
   \<and> fst (script example_env (world_of blocked_fs)) = 0
   \<and> os_path_isfile (fs (snd (script example_env (world_of blocked_fs)))) ''/tmp/weekly-archive.tar''"
  by code_simp

subsection \<open>Selective Mirror\<close>

text \<open>
  C6. A bucket whose listing holds one object, with the key \<^verbatim>\<open>/x\<close> and no rule that
  ignores it: \<^verbatim>\<open>os.path.join('/tmp/s3_files/', '/x')\<close> is \<^verbatim>\<open>/x\<close>, the join drops the working
  root for a key that starts with a separator. The run succeeds and returns the working
  root, the working tree under \<^verbatim>\<open>/tmp/s3_files\<close> stays empty, and the object's bytes are
  written to \<^verbatim>\<open>/x\<close>, outside the tree that is archived and cleaned up afterwards. The
  claim has the file in the working tree.
\<close>

theorem C6_absolute_key_leaves_working_root:
  "fst (download_files example_env [] escape_world) = Inr ''/tmp/s3_files/''
   \<and> \<not> ignored [] ''/x''
   \<and> os_path_join ''/tmp/s3_files/'' ''/x'' = ''/x''
   \<and> lookup (fs (snd (download_files example_env [] escape_world))) [''tmp'', ''s3_files'']
       = Some (Dir [])
   \<and> is_file_with (fs (snd (download_files example_env [] escape_world))) [''x''] [1]"
  by code_simp

subsection \<open>The script's handler\<close>




end
